theory Spec2Isabelle
  imports Complex_Main "HOL-Library.Word" "HOL-Library.Multiset"
begin

section \<open>Scalars, vectors and exceptions\<close>

text \<open>
  \<^verbatim>\<open>FCL_REAL\<close> is the library's floating-point scalar (a binary64 \<^verbatim>\<open>double\<close>). A value is
  a NaN, an infinity or a finite number. The two signed zeros are one value here (they
  compare equal in C++), and arithmetic on finite values is exact: rounding and
  overflow to infinity are not part of this model.
\<close>

datatype FCL_REAL = NaN | NegInf | Finite real | PosInf

text \<open>The comparison operators of C++ on floating-point values: every comparison
  with a NaN is false.\<close>

fun fcl_less :: "FCL_REAL \<Rightarrow> FCL_REAL \<Rightarrow> bool" where
  "fcl_less (Finite x) (Finite y) = (x < y)"
| "fcl_less NegInf (Finite y) = True"
| "fcl_less NegInf PosInf = True"
| "fcl_less (Finite x) PosInf = True"
| "fcl_less _ _ = False"

definition fcl_greater :: "FCL_REAL \<Rightarrow> FCL_REAL \<Rightarrow> bool" where
  "fcl_greater a b = fcl_less b a"

definition fcl_eq :: "FCL_REAL \<Rightarrow> FCL_REAL \<Rightarrow> bool" where
  "fcl_eq a b = (a \<noteq> NaN \<and> b \<noteq> NaN \<and> a = b)"

definition fcl_le :: "FCL_REAL \<Rightarrow> FCL_REAL \<Rightarrow> bool" where
  "fcl_le a b = (fcl_less a b \<or> fcl_eq a b)"

text \<open>\<^verbatim>\<open>std::numeric_limits<FCL_REAL>::max()\<close>: the largest finite binary64 value.\<close>

definition FCL_REAL_max :: FCL_REAL where
  "FCL_REAL_max = Finite ((2 - 1 / 2 ^ 52) * 2 ^ 1023)"

text \<open>Arithmetic, with the results IEEE 754 fixes for NaNs, infinities and division by
  zero (a zero divisor counts as \<^verbatim>\<open>+0\<close>).\<close>

fun fcl_neg :: "FCL_REAL \<Rightarrow> FCL_REAL" where
  "fcl_neg NaN = NaN"
| "fcl_neg NegInf = PosInf"
| "fcl_neg (Finite x) = Finite (- x)"
| "fcl_neg PosInf = NegInf"

fun fcl_add :: "FCL_REAL \<Rightarrow> FCL_REAL \<Rightarrow> FCL_REAL" where
  "fcl_add (Finite x) (Finite y) = Finite (x + y)"
| "fcl_add NaN _ = NaN"
| "fcl_add _ NaN = NaN"
| "fcl_add PosInf NegInf = NaN"
| "fcl_add NegInf PosInf = NaN"
| "fcl_add PosInf _ = PosInf"
| "fcl_add _ PosInf = PosInf"
| "fcl_add NegInf _ = NegInf"
| "fcl_add _ NegInf = NegInf"

definition fcl_sub :: "FCL_REAL \<Rightarrow> FCL_REAL \<Rightarrow> FCL_REAL" where
  "fcl_sub a b = fcl_add a (fcl_neg b)"

fun is_negative :: "FCL_REAL \<Rightarrow> bool" where
  "is_negative NegInf = True"
| "is_negative (Finite x) = (x < 0)"
| "is_negative _ = False"

definition signed_inf :: "bool \<Rightarrow> FCL_REAL" where
  "signed_inf negative = (if negative then NegInf else PosInf)"

fun fcl_mul :: "FCL_REAL \<Rightarrow> FCL_REAL \<Rightarrow> FCL_REAL" where
  "fcl_mul (Finite x) (Finite y) = Finite (x * y)"
| "fcl_mul NaN _ = NaN"
| "fcl_mul _ NaN = NaN"
| "fcl_mul (Finite x) b = (if x = 0 then NaN else signed_inf ((x < 0) \<noteq> is_negative b))"
| "fcl_mul a (Finite y) = (if y = 0 then NaN else signed_inf (is_negative a \<noteq> (y < 0)))"
| "fcl_mul NegInf NegInf = PosInf"
| "fcl_mul NegInf PosInf = NegInf"
| "fcl_mul PosInf NegInf = NegInf"
| "fcl_mul PosInf PosInf = PosInf"

fun fcl_div :: "FCL_REAL \<Rightarrow> FCL_REAL \<Rightarrow> FCL_REAL" where
  "fcl_div (Finite x) (Finite y) =
     (if y = 0 then (if x = 0 then NaN else signed_inf (x < 0)) else Finite (x / y))"
| "fcl_div NaN _ = NaN"
| "fcl_div _ NaN = NaN"
| "fcl_div (Finite x) _ = Finite 0"
| "fcl_div a (Finite y) = signed_inf (is_negative a \<noteq> (y < 0))"
| "fcl_div NegInf NegInf = NaN"
| "fcl_div NegInf PosInf = NaN"
| "fcl_div PosInf NegInf = NaN"
| "fcl_div PosInf PosInf = NaN"

type_synonym Vec3f = "FCL_REAL \<times> FCL_REAL \<times> FCL_REAL"

fun vadd :: "Vec3f \<Rightarrow> Vec3f \<Rightarrow> Vec3f" where
  "vadd (x, y, z) (x', y', z') = (fcl_add x x', fcl_add y y', fcl_add z z')"

fun vscale :: "Vec3f \<Rightarrow> FCL_REAL \<Rightarrow> Vec3f" where
  "vscale (x, y, z) s = (fcl_mul x s, fcl_mul y s, fcl_mul z s)"

fun vdiv :: "Vec3f \<Rightarrow> FCL_REAL \<Rightarrow> Vec3f" where
  "vdiv (x, y, z) s = (fcl_div x s, fcl_div y s, fcl_div z s)"

fun cross :: "Vec3f \<Rightarrow> Vec3f \<Rightarrow> Vec3f" where
  "cross (x, y, z) (x', y', z') =
     (fcl_sub (fcl_mul y z') (fcl_mul z y'),
      fcl_sub (fcl_mul z x') (fcl_mul x z'),
      fcl_sub (fcl_mul x y') (fcl_mul y x'))"

fun dot :: "Vec3f \<Rightarrow> Vec3f \<Rightarrow> FCL_REAL" where
  "dot (x, y, z) (x', y', z') =
     fcl_add (fcl_add (fcl_mul x x') (fcl_mul y y')) (fcl_mul z z')"

text \<open>Eigen's \<^verbatim>\<open>==\<close> on vectors: all coefficients compare equal.\<close>

fun Vec3f_eq :: "Vec3f \<Rightarrow> Vec3f \<Rightarrow> bool" where
  "Vec3f_eq (x, y, z) (x', y', z') = (fcl_eq x x' \<and> fcl_eq y y' \<and> fcl_eq z z')"

definition Vec3f_Constant :: "FCL_REAL \<Rightarrow> Vec3f" where
  "Vec3f_Constant c = (c, c, c)"

definition Vec3f_Zero :: Vec3f where
  "Vec3f_Zero = Vec3f_Constant (Finite 0)"

text \<open>\<^verbatim>\<open>support_func_guess_t\<close> is a vector of two \<^verbatim>\<open>int\<close>s.\<close>

type_synonym support_func_guess_t = "int \<times> int"

text \<open>A \<^verbatim>\<open>const CollisionGeometry*\<close>: \<open>None\<close> is \<^verbatim>\<open>NULL\<close>, \<open>Some a\<close> the object at address \<open>a\<close>.\<close>

type_synonym CollisionGeometry_ptr = "nat option"

text \<open>What a call can end with other than a value: the two exceptions thrown by the
  code, and undefined behaviour (an access outside a buffer).\<close>

datatype exn = Logic_error | Invalid_argument | Undefined_behaviour

section \<open>Query requests and results (collision_data.h)\<close>

text \<open>Records keep the member names of the structs. Where two structs have a member of
  the same name (\<^verbatim>\<open>o1\<close>, \<^verbatim>\<open>normal\<close>, \<^verbatim>\<open>nearest_points\<close>, \<^verbatim>\<open>cached_gjk_guess\<close>, ...), the plain name
  is the member of the record declared last and the others are written with the record's
  name in front. An \<^verbatim>\<open>int\<close> that is only stored and compared is an \<open>int\<close>, a \<^verbatim>\<open>size_t\<close> a
  \<open>nat\<close>.\<close>

text \<open>The enumerations of \<^verbatim>\<open>data_types.h\<close> that the requests store.\<close>

datatype GJKInitialGuess = DefaultGuess | CachedGuess | BoundingVolumeGuess
datatype GJKVariant = DefaultGJK | NesterovAcceleration
datatype GJKConvergenceCriterion = VDB | DualityGap | Hybrid
datatype GJKConvergenceCriterionType = Relative | Absolute

text \<open>Modelled from the spec: \<^verbatim>\<open>CPUTimes\<close> and its \<^verbatim>\<open>clear()\<close> live in \<^verbatim>\<open>timings.h\<close>, which is not
  among the sources; the spec only says that clearing a result resets its timing. The
  record holds the three measured times, zero when constructed and when cleared.\<close>

record CPUTimes =
  wall :: FCL_REAL
  user :: FCL_REAL
  system :: FCL_REAL

definition CPUTimes_init :: CPUTimes where
  "CPUTimes_init = \<lparr>wall = Finite 0, user = Finite 0, system = Finite 0\<rparr>"

definition CPUTimes_clear :: "CPUTimes \<Rightarrow> CPUTimes" where
  "CPUTimes_clear t = t\<lparr>wall := Finite 0, user := Finite 0, system := Finite 0\<rparr>"

record Contact =
  o1 :: CollisionGeometry_ptr
  o2 :: CollisionGeometry_ptr
  b1 :: int
  b2 :: int
  normal :: Vec3f
  nearest_points :: "Vec3f \<times> Vec3f"
  pos :: Vec3f
  penetration_depth :: FCL_REAL

definition NONE :: int where
  "NONE = - 1"

text \<open>The constructor of a \<^verbatim>\<open>Contact\<close> from the two nearest points, the normal and the depth.\<close>

definition Contact_init ::
  "CollisionGeometry_ptr \<Rightarrow> CollisionGeometry_ptr \<Rightarrow> int \<Rightarrow> int \<Rightarrow> Vec3f \<Rightarrow> Vec3f \<Rightarrow>
   Vec3f \<Rightarrow> FCL_REAL \<Rightarrow> Contact" where
  "Contact_init o1' o2' b1' b2' p1 p2 normal' depth' =
     \<lparr>o1 = o1', o2 = o2', b1 = b1', b2 = b2', normal = normal',
      nearest_points = (p1, p2), pos = vdiv (vadd p1 p2) (Finite 2),
      penetration_depth = depth'\<rparr>"

text \<open>\<^verbatim>\<open>Contact::operator<\<close>\<close>

definition Contact_less :: "Contact \<Rightarrow> Contact \<Rightarrow> bool" where
  "Contact_less c other = (if b1 c = b1 other then b2 c < b2 other else b1 c < b1 other)"

text \<open>\<^verbatim>\<open>Contact::operator==\<close>\<close>

definition Contact_eq :: "Contact \<Rightarrow> Contact \<Rightarrow> bool" where
  "Contact_eq c other =
     (o1 c = o1 other \<and> o2 c = o2 other \<and> b1 c = b1 other \<and>
      b2 c = b2 other \<and> Vec3f_eq (normal c) (normal other) \<and> Vec3f_eq (pos c) (pos other) \<and>
      fcl_eq (penetration_depth c) (penetration_depth other))"

record QueryRequest =
  gjk_initial_guess :: GJKInitialGuess
  enable_cached_gjk_guess :: bool
  gjk_variant :: GJKVariant
  gjk_convergence_criterion :: GJKConvergenceCriterion
  gjk_convergence_criterion_type :: GJKConvergenceCriterionType
  gjk_tolerance :: FCL_REAL
  gjk_max_iterations :: nat
  cached_gjk_guess :: Vec3f
  cached_support_func_guess :: support_func_guess_t
  enable_timings :: bool
  collision_distance_threshold :: FCL_REAL

record QueryResult =
  cached_gjk_guess :: Vec3f
  cached_support_func_guess :: support_func_guess_t
  timings :: CPUTimes

text \<open>\<^verbatim>\<open>QueryResult::QueryResult()\<close>\<close>

definition QueryResult_init :: QueryResult where
  "QueryResult_init =
     \<lparr>cached_gjk_guess = Vec3f_Zero, cached_support_func_guess = (- 1, - 1),
      timings = CPUTimes_init\<rparr>"

text \<open>\<^verbatim>\<open>QueryRequest::updateGuess\<close>: two tests in a row, on the initial-guess mode and on
  the deprecated flag; each copies both cached fields of the result.\<close>

definition updateGuess ::
  "'a QueryRequest_scheme \<Rightarrow> 'b QueryResult_scheme \<Rightarrow> 'a QueryRequest_scheme" where
  "updateGuess req result =
     (let req1 =
        (if gjk_initial_guess req = CachedGuess
         then req\<lparr>QueryRequest.cached_gjk_guess := cached_gjk_guess result,
                  QueryRequest.cached_support_func_guess := cached_support_func_guess result\<rparr>
         else req)
      in if enable_cached_gjk_guess req1
         then req1\<lparr>QueryRequest.cached_gjk_guess := cached_gjk_guess result,
                   QueryRequest.cached_support_func_guess := cached_support_func_guess result\<rparr>
         else req1)"

record CollisionResult = QueryResult +
  contacts :: "Contact list"
  distance_lower_bound :: FCL_REAL
  nearest_points :: "Vec3f \<times> Vec3f"

text \<open>\<^verbatim>\<open>CollisionResult::CollisionResult()\<close>. The constructor leaves \<^verbatim>\<open>nearest_points\<close>
  uninitialised: whatever the memory holds is the argument \<open>np\<close>.\<close>

definition CollisionResult_init :: "Vec3f \<times> Vec3f \<Rightarrow> CollisionResult" where
  "CollisionResult_init np =
     QueryResult.extend QueryResult_init
       (CollisionResult.fields [] FCL_REAL_max np)"

definition updateDistanceLowerBound ::
  "'a CollisionResult_scheme \<Rightarrow> FCL_REAL \<Rightarrow> 'a CollisionResult_scheme" where
  "updateDistanceLowerBound r distance_lower_bound' =
     (if fcl_less distance_lower_bound' (distance_lower_bound r)
      then r\<lparr>distance_lower_bound := distance_lower_bound'\<rparr> else r)"

definition addContact :: "'a CollisionResult_scheme \<Rightarrow> Contact \<Rightarrow> 'a CollisionResult_scheme" where
  "addContact r c = r\<lparr>contacts := contacts r @ [c]\<rparr>"

definition isCollision :: "'a CollisionResult_scheme \<Rightarrow> bool" where
  "isCollision r = (length (contacts r) > 0)"

definition numContacts :: "'a CollisionResult_scheme \<Rightarrow> nat" where
  "numContacts r = length (contacts r)"

text \<open>\<^verbatim>\<open>CollisionResult::getContact\<close>; \<^verbatim>\<open>contacts.back()\<close> is the last element of a
  vector that is not empty there.\<close>

definition getContact :: "'a CollisionResult_scheme \<Rightarrow> nat \<Rightarrow> exn + Contact" where
  "getContact r i =
     (if length (contacts r) = 0 then Inl Invalid_argument
      else if i < length (contacts r) then Inr (contacts r ! i)
      else Inr (last (contacts r)))"

text \<open>\<^verbatim>\<open>CollisionResult::clear\<close>\<close>

definition CollisionResult_clear :: "'a CollisionResult_scheme \<Rightarrow> 'a CollisionResult_scheme" where
  "CollisionResult_clear r =
     (let r1 = r\<lparr>distance_lower_bound := FCL_REAL_max\<rparr>;
          r2 = r1\<lparr>contacts := []\<rparr>;
          r3 = r2\<lparr>distance_lower_bound := FCL_REAL_max\<rparr>
      in r3\<lparr>timings := CPUTimes_clear (timings r3)\<rparr>)"

text \<open>The derivative matrices and the optimal simplex of a distance result have types of
  \<^verbatim>\<open>data_types.h\<close> and \<^verbatim>\<open>gjk.h\<close>; no function below reads or writes them, and they are the
  type parameters \<open>'m\<close> and \<open>'s\<close>.\<close>

record ('m, 's) DistanceResult = QueryResult +
  min_distance :: FCL_REAL
  nearest_points :: "Vec3f \<times> Vec3f"
  dw_dq :: 'm
  dw1_dq :: 'm
  dw2_dq :: 'm
  optimal_simplex :: 's
  normal :: Vec3f
  o1 :: CollisionGeometry_ptr
  o2 :: CollisionGeometry_ptr
  b1 :: int
  b2 :: int

text \<open>\<^verbatim>\<open>DistanceResult::DistanceResult(min_distance_)\<close>; the matrices and the simplex are
  default-constructed by their own types (\<open>m\<close>, \<open>s\<close>).\<close>

definition DistanceResult_init :: "'m \<Rightarrow> 's \<Rightarrow> FCL_REAL \<Rightarrow> ('m, 's) DistanceResult" where
  "DistanceResult_init m s min_distance' =
     QueryResult.extend QueryResult_init
       (DistanceResult.fields min_distance' (Vec3f_Constant NaN, Vec3f_Constant NaN) m m m s
          (Vec3f_Constant NaN) None None NONE NONE)"

text \<open>The default argument of the constructor.\<close>

definition DistanceResult_default :: "'m \<Rightarrow> 's \<Rightarrow> ('m, 's) DistanceResult" where
  "DistanceResult_default m s = DistanceResult_init m s FCL_REAL_max"

text \<open>\<^verbatim>\<open>DistanceResult::update\<close>, the overload without points.\<close>

definition update5 ::
  "('m, 's, 'a) DistanceResult_scheme \<Rightarrow> FCL_REAL \<Rightarrow> CollisionGeometry_ptr \<Rightarrow>
   CollisionGeometry_ptr \<Rightarrow> int \<Rightarrow> int \<Rightarrow> ('m, 's, 'a) DistanceResult_scheme" where
  "update5 r distance o1' o2' b1' b2' =
     (if fcl_greater (min_distance r) distance
      then r\<lparr>min_distance := distance, o1 := o1', o2 := o2', b1 := b1', b2 := b2'\<rparr>
      else r)"

text \<open>\<^verbatim>\<open>DistanceResult::update\<close>, the overload with the nearest points and the normal.\<close>

definition update ::
  "('m, 's, 'a) DistanceResult_scheme \<Rightarrow> FCL_REAL \<Rightarrow> CollisionGeometry_ptr \<Rightarrow>
   CollisionGeometry_ptr \<Rightarrow> int \<Rightarrow> int \<Rightarrow> Vec3f \<Rightarrow> Vec3f \<Rightarrow> Vec3f \<Rightarrow>
   ('m, 's, 'a) DistanceResult_scheme" where
  "update r distance o1' o2' b1' b2' p1 p2 normal' =
     (if fcl_greater (min_distance r) distance
      then r\<lparr>min_distance := distance, o1 := o1', o2 := o2', b1 := b1', b2 := b2',
             nearest_points := (p1, p2), normal := normal'\<rparr>
      else r)"

text \<open>The arguments of one call of \<^verbatim>\<open>update\<close>, and a sequence of calls on one result.\<close>

type_synonym update_args =
  "FCL_REAL \<times> CollisionGeometry_ptr \<times> CollisionGeometry_ptr \<times> int \<times> int \<times> Vec3f \<times> Vec3f \<times> Vec3f"

definition update_call ::
  "('m, 's, 'a) DistanceResult_scheme \<Rightarrow> update_args \<Rightarrow> ('m, 's, 'a) DistanceResult_scheme" where
  "update_call r a =
     (case a of (distance, o1', o2', b1', b2', p1, p2, normal') \<Rightarrow>
        update r distance o1' o2' b1' b2' p1 p2 normal')"

definition update_calls ::
  "('m, 's, 'a) DistanceResult_scheme \<Rightarrow> update_args list \<Rightarrow> ('m, 's, 'a) DistanceResult_scheme" where
  "update_calls r calls = foldl update_call r calls"

text \<open>The result whose seven fields are the arguments \<open>a\<close>.\<close>

definition replaced_by ::
  "('m, 's, 'a) DistanceResult_scheme \<Rightarrow> update_args \<Rightarrow> ('m, 's, 'a) DistanceResult_scheme" where
  "replaced_by r a =
     (case a of (distance, o1', o2', b1', b2', p1, p2, normal') \<Rightarrow>
        r\<lparr>min_distance := distance, o1 := o1', o2 := o2', b1 := b1', b2 := b2',
          nearest_points := (p1, p2), normal := normal'\<rparr>)"

text \<open>What a sequence of calls leaves behind. Either no call had a distance below the
  \<^verbatim>\<open>min_distance\<close> the result started with, and the result is unchanged; or call \<open>k\<close> is the
  first one with the smallest distance, that distance is below the starting
  \<^verbatim>\<open>min_distance\<close>, and the seven fields are the arguments of call \<open>k\<close>.\<close>

definition nobody_wins :: "('m, 's, 'a) DistanceResult_scheme \<Rightarrow> update_args list \<Rightarrow> bool" where
  "nobody_wins r calls \<longleftrightarrow>
     update_calls r calls = r \<and>
     (\<forall>i < length calls. \<not> fcl_less (fst (calls ! i)) (min_distance r))"

definition wins :: "('m, 's, 'a) DistanceResult_scheme \<Rightarrow> update_args list \<Rightarrow> nat \<Rightarrow> bool" where
  "wins r calls k \<longleftrightarrow>
     k < length calls \<and>
     update_calls r calls = replaced_by r (calls ! k) \<and>
     fcl_less (fst (calls ! k)) (min_distance r) \<and>
     (\<forall>i < length calls. \<not> fcl_less (fst (calls ! i)) (fst (calls ! k))) \<and>
     (\<forall>i < k. fst (calls ! i) \<noteq> fst (calls ! k))"

text \<open>\<^verbatim>\<open>DistanceResult::clear\<close>\<close>

definition DistanceResult_clear ::
  "('m, 's, 'a) DistanceResult_scheme \<Rightarrow> ('m, 's, 'a) DistanceResult_scheme" where
  "DistanceResult_clear r =
     (let r1 = r\<lparr>min_distance := FCL_REAL_max, o1 := None, o2 := None,
                 b1 := NONE, b2 := NONE,
                 normal := Vec3f_Constant NaN,
                 nearest_points := (Vec3f_Constant NaN, Vec3f_Constant NaN)\<rparr>
      in r1\<lparr>timings := CPUTimes_clear (timings r1)\<rparr>)"

section \<open>Convex polytopes (shape/details/convex.hxx)\<close>

text \<open>
  A polygon is the list of its vertex indices (\<^verbatim>\<open>polygon[j]\<close> for \<^verbatim>\<open>j < polygon.size()\<close>). The
  arrays \<^verbatim>\<open>points\<close> and \<^verbatim>\<open>polygons\<close> are lists, and their lengths are \<^verbatim>\<open>num_points\<close> and
  \<^verbatim>\<open>num_polygons\<close>. A \<^verbatim>\<open>Neighbors\<close> entry holds the byte \<^verbatim>\<open>count_\<close> and the pointer \<^verbatim>\<open>n_\<close>
  into the packed buffer \<^verbatim>\<open>nneighbors_\<close>, here the offset from the start of that buffer.
  An index that reaches the buffer is below \<^verbatim>\<open>num_points\<close>, so the buffer's elements are
  kept as plain naturals.
\<close>

record Neighbors =
  nb_count :: "8 word"
  nb_n :: nat

record Convex =
  points :: "Vec3f list"
  polygons :: "nat list list"
  neighbors :: "Neighbors list"
  nneighbors_buf :: "nat list"

definition num_points :: "'a Convex_scheme \<Rightarrow> nat" where
  "num_points c = length (points c)"

definition num_polygons :: "'a Convex_scheme \<Rightarrow> nat" where
  "num_polygons c = length (polygons c)"

text \<open>A read of \<^verbatim>\<open>points_[i]\<close>; outside the array it is undefined behaviour.\<close>

definition points_at :: "Vec3f list \<Rightarrow> nat \<Rightarrow> exn + Vec3f" where
  "points_at pts i = (if i < length pts then Inr (pts ! i) else Inl Undefined_behaviour)"

subsection \<open>Volume and centre of mass\<close>

text \<open>The first inner loop: the sum of the polygon's vertices.\<close>

fun plane_center_loop :: "Vec3f list \<Rightarrow> nat list \<Rightarrow> nat list \<Rightarrow> Vec3f \<Rightarrow> exn + Vec3f" where
  "plane_center_loop pts polygon [] plane_center = Inr plane_center"
| "plane_center_loop pts polygon (j # js) plane_center =
     (case points_at pts (polygon ! j) of
        Inl e \<Rightarrow> Inl e
      | Inr p \<Rightarrow> plane_center_loop pts polygon js (vadd plane_center p))"

text \<open>\<^verbatim>\<open>plane_center /= polygon.size()\<close> after the loop.\<close>

definition compute_plane_center :: "Vec3f list \<Rightarrow> nat list \<Rightarrow> exn + Vec3f" where
  "compute_plane_center pts polygon =
     (case plane_center_loop pts polygon [0..<length polygon] (Finite 0, Finite 0, Finite 0) of
        Inl e \<Rightarrow> Inl e
      | Inr plane_center \<Rightarrow> Inr (vdiv plane_center (Finite (real (length polygon)))))"

text \<open>The second inner loop of \<^verbatim>\<open>computeVolume\<close>, over the edges of one polygon.\<close>

fun volume_edge_loop ::
  "Vec3f list \<Rightarrow> nat list \<Rightarrow> Vec3f \<Rightarrow> nat list \<Rightarrow> FCL_REAL \<Rightarrow> exn + FCL_REAL" where
  "volume_edge_loop pts polygon v3 [] vol = Inr vol"
| "volume_edge_loop pts polygon v3 (j # js) vol =
     (let e_first = polygon ! j;
          e_second = polygon ! ((j + 1) mod length polygon)
      in case points_at pts e_first of
           Inl e \<Rightarrow> Inl e
         | Inr v1 \<Rightarrow>
             (case points_at pts e_second of
                Inl e \<Rightarrow> Inl e
              | Inr v2 \<Rightarrow>
                  (let d_six_vol = dot (cross v1 v2) v3
                   in volume_edge_loop pts polygon v3 js (fcl_add vol d_six_vol))))"

text \<open>The outer loop of \<^verbatim>\<open>computeVolume\<close>, over the polygons.\<close>

fun volume_loop :: "Vec3f list \<Rightarrow> nat list list \<Rightarrow> FCL_REAL \<Rightarrow> exn + FCL_REAL" where
  "volume_loop pts [] vol = Inr vol"
| "volume_loop pts (polygon # rest) vol =
     (case compute_plane_center pts polygon of
        Inl e \<Rightarrow> Inl e
      | Inr plane_center \<Rightarrow>
          (case volume_edge_loop pts polygon plane_center [0..<length polygon] vol of
             Inl e \<Rightarrow> Inl e
           | Inr vol' \<Rightarrow> volume_loop pts rest vol'))"

definition computeVolume :: "'a Convex_scheme \<Rightarrow> exn + FCL_REAL" where
  "computeVolume c =
     (case volume_loop (points c) (polygons c) (Finite 0) of
        Inl e \<Rightarrow> Inl e
      | Inr vol \<Rightarrow> Inr (fcl_div vol (Finite 6)))"

text \<open>The same two loops in \<^verbatim>\<open>computeCOM\<close>; the state is the pair of \<^verbatim>\<open>com\<close> and \<^verbatim>\<open>vol\<close>.\<close>

fun com_edge_loop ::
  "Vec3f list \<Rightarrow> nat list \<Rightarrow> Vec3f \<Rightarrow> nat list \<Rightarrow> Vec3f \<times> FCL_REAL \<Rightarrow>
   exn + Vec3f \<times> FCL_REAL" where
  "com_edge_loop pts polygon plane_center [] (com, vol) = Inr (com, vol)"
| "com_edge_loop pts polygon plane_center (j # js) (com, vol) =
     (let e_first = polygon ! j;
          e_second = polygon ! ((j + 1) mod length polygon)
      in case points_at pts e_first of
           Inl e \<Rightarrow> Inl e
         | Inr v1 \<Rightarrow>
             (case points_at pts e_second of
                Inl e \<Rightarrow> Inl e
              | Inr v2 \<Rightarrow>
                  (let d_six_vol = dot (cross v1 v2) plane_center
                   in com_edge_loop pts polygon plane_center js
                        (vadd com (vscale (vadd (vadd v1 v2) plane_center) d_six_vol),
                         fcl_add vol d_six_vol))))"

fun com_loop ::
  "Vec3f list \<Rightarrow> nat list list \<Rightarrow> Vec3f \<times> FCL_REAL \<Rightarrow> exn + Vec3f \<times> FCL_REAL" where
  "com_loop pts [] st = Inr st"
| "com_loop pts (polygon # rest) st =
     (case compute_plane_center pts polygon of
        Inl e \<Rightarrow> Inl e
      | Inr plane_center \<Rightarrow>
          (case com_edge_loop pts polygon plane_center [0..<length polygon] st of
             Inl e \<Rightarrow> Inl e
           | Inr st' \<Rightarrow> com_loop pts rest st'))"

definition computeCOM :: "'a Convex_scheme \<Rightarrow> exn + Vec3f" where
  "computeCOM c =
     (case com_loop (points c) (polygons c) ((Finite 0, Finite 0, Finite 0), Finite 0) of
        Inl e \<Rightarrow> Inl e
      | Inr (com, vol) \<Rightarrow> Inr (vdiv com (fcl_mul vol (Finite 4))))"

subsection \<open>The adjacency table\<close>

text \<open>A \<^verbatim>\<open>std::set<index_type>\<close> is the ascending list of its elements, the order in which
  \<^verbatim>\<open>std::copy\<close> reads it.\<close>

definition set_count :: "nat list \<Rightarrow> nat \<Rightarrow> nat" where
  "set_count s x = (if x \<in> set s then 1 else 0)"

definition set_insert :: "nat list \<Rightarrow> nat \<Rightarrow> nat list" where
  "set_insert s x = (if x \<in> set s then s else insort x s)"

text \<open>One of the two tests in the body of the inner loop: \<^verbatim>\<open>p\<close> becomes a neighbor of \<^verbatim>\<open>pj\<close>
  unless it is one already. The counter \<^verbatim>\<open>c_nneighbors\<close> is an \<^verbatim>\<open>unsigned int\<close>.\<close>

definition update_neighbors ::
  "nat list list \<times> 32 word \<Rightarrow> nat \<Rightarrow> nat \<Rightarrow> nat list list \<times> 32 word" where
  "update_neighbors st pj p =
     (case st of (nneighbors, c_nneighbors) \<Rightarrow>
        if set_count (nneighbors ! pj) p = 0
        then (nneighbors[pj := set_insert (nneighbors ! pj) p], c_nneighbors + 1)
        else (nneighbors, c_nneighbors))"

text \<open>The body of the inner loop at position \<^verbatim>\<open>j\<close>. \<^verbatim>\<open>nneighbors[pj]\<close> outside the vector is
  undefined behaviour.\<close>

definition neighbors_step ::
  "nat list \<Rightarrow> nat \<Rightarrow> nat list list \<times> 32 word \<Rightarrow> exn + nat list list \<times> 32 word" where
  "neighbors_step polygon j st =
     (let n = length polygon;
          i = (if j = 0 then n - 1 else j - 1);
          k = (if j = n - 1 then 0 else j + 1);
          p_i = polygon ! i; p_j = polygon ! j; p_k = polygon ! k
      in if length (fst st) \<le> p_j then Inl Undefined_behaviour
         else Inr (update_neighbors (update_neighbors st p_j p_i) p_j p_k))"

fun neighbors_polygon_loop ::
  "nat list \<Rightarrow> nat list \<Rightarrow> nat list list \<times> 32 word \<Rightarrow> exn + nat list list \<times> 32 word" where
  "neighbors_polygon_loop polygon [] st = Inr st"
| "neighbors_polygon_loop polygon (j # js) st =
     (case neighbors_step polygon j st of
        Inl e \<Rightarrow> Inl e
      | Inr st' \<Rightarrow> neighbors_polygon_loop polygon js st')"

fun neighbors_loop ::
  "nat list list \<Rightarrow> nat list list \<times> 32 word \<Rightarrow> exn + nat list list \<times> 32 word" where
  "neighbors_loop [] st = Inr st"
| "neighbors_loop (polygon # rest) st =
     (case neighbors_polygon_loop polygon [0..<length polygon] st of
        Inl e \<Rightarrow> Inl e
      | Inr st' \<Rightarrow> neighbors_loop rest st')"

text \<open>\<^verbatim>\<open>(std::numeric_limits<unsigned char>::max)()\<close>\<close>

definition unsigned_char_max :: nat where
  "unsigned_char_max = 255"

text \<open>The last loop: entry \<^verbatim>\<open>i\<close> of \<^verbatim>\<open>neighbors\<close> is set, and the set of vertex \<^verbatim>\<open>i\<close> is copied
  to the buffer at \<^verbatim>\<open>p_nneighbors\<close>, the end of what has been written. The buffer was
  allocated with \<open>cap\<close> elements, and a write beyond it is undefined behaviour.\<close>

fun flatten_loop ::
  "nat \<Rightarrow> nat list list \<Rightarrow> Neighbors list \<times> nat list \<Rightarrow> exn + Neighbors list \<times> nat list" where
  "flatten_loop cap [] st = Inr st"
| "flatten_loop cap (s # rest) (ns, buf) =
     (if unsigned_char_max \<le> length s then Inl Logic_error
      else if cap < length buf + length s then Inl Undefined_behaviour
      else flatten_loop cap rest
             (ns @ [\<lparr>nb_count = of_nat (length s), nb_n = length buf\<rparr>], buf @ s))"

definition fillNeighbors :: "'a Convex_scheme \<Rightarrow> exn + 'a Convex_scheme" where
  "fillNeighbors c =
     (case neighbors_loop (polygons c) (replicate (num_points c) [], 0) of
        Inl e \<Rightarrow> Inl e
      | Inr (nneighbors, c_nneighbors) \<Rightarrow>
          (case flatten_loop (unat c_nneighbors) nneighbors ([], []) of
             Inl e \<Rightarrow> Inl e
           | Inr (ns, buf) \<Rightarrow> Inr (c\<lparr>neighbors := ns, nneighbors_buf := buf\<rparr>)))"

text \<open>The constructor and \<^verbatim>\<open>set\<close>: both store the arrays and call \<^verbatim>\<open>fillNeighbors\<close>.\<close>

definition Convex_init :: "Vec3f list \<Rightarrow> nat list list \<Rightarrow> exn + Convex" where
  "Convex_init points' polygons' =
     fillNeighbors \<lparr>points = points', polygons = polygons', neighbors = [], nneighbors_buf = []\<rparr>"

definition Convex_set :: "'a Convex_scheme \<Rightarrow> Vec3f list \<Rightarrow> nat list list \<Rightarrow> exn + 'a Convex_scheme" where
  "Convex_set c points' polygons' = fillNeighbors (c\<lparr>points := points', polygons := polygons'\<rparr>)"

text \<open>The neighbors of vertex \<open>v\<close> as the table stores them: \<^verbatim>\<open>count_\<close> elements from \<^verbatim>\<open>n_\<close> on.\<close>

definition neighbors_of :: "'a Convex_scheme \<Rightarrow> nat \<Rightarrow> nat list" where
  "neighbors_of c v =
     take (unat (nb_count (neighbors c ! v))) (drop (nb_n (neighbors c ! v)) (nneighbors_buf c))"

subsection \<open>The centroid fan as a sum\<close>

text \<open>A face is fanned into triangles around its anchor, the arithmetic mean of its
  vertices. Triangle \<open>j\<close> has the vertices at positions \<open>j\<close> and \<open>j + 1\<close> (cyclically) and the
  anchor; with the origin it spans a tetrahedron of six times the signed volume
  \<open>(v\<^sub>j \<times> v\<^sub>j\<^sub>+\<^sub>1) \<cdot> anchor\<close>. The volume is the sum of these over all faces divided by 6, the
  centre of mass the sum of \<open>(v\<^sub>j + v\<^sub>j\<^sub>+\<^sub>1 + anchor)\<close> times them divided by four times their
  sum.\<close>

definition face_points :: "Vec3f list \<Rightarrow> nat list \<Rightarrow> Vec3f list" where
  "face_points pts polygon = map (\<lambda>i. pts ! i) polygon"

definition face_anchor :: "Vec3f list \<Rightarrow> Vec3f" where
  "face_anchor vs = vdiv (foldl vadd (Finite 0, Finite 0, Finite 0) vs) (Finite (real (length vs)))"

definition six_times_signed_volume :: "Vec3f list \<Rightarrow> nat \<Rightarrow> FCL_REAL" where
  "six_times_signed_volume vs j =
     dot (cross (vs ! j) (vs ! ((j + 1) mod length vs))) (face_anchor vs)"

definition six_vols :: "Vec3f list \<Rightarrow> FCL_REAL list" where
  "six_vols vs = map (six_times_signed_volume vs) [0..<length vs]"

definition com_terms :: "Vec3f list \<Rightarrow> Vec3f list" where
  "com_terms vs =
     map (\<lambda>j. vscale (vadd (vadd (vs ! j) (vs ! ((j + 1) mod length vs))) (face_anchor vs))
                 (six_times_signed_volume vs j))
       [0..<length vs]"

definition fan_volume :: "Vec3f list list \<Rightarrow> FCL_REAL" where
  "fan_volume faces = fcl_div (foldl fcl_add (Finite 0) (concat (map six_vols faces))) (Finite 6)"

definition fan_com :: "Vec3f list list \<Rightarrow> Vec3f" where
  "fan_com faces =
     vdiv (foldl vadd (Finite 0, Finite 0, Finite 0) (concat (map com_terms faces)))
       (fcl_mul (foldl fcl_add (Finite 0) (concat (map six_vols faces))) (Finite 4))"

subsection \<open>Adjacency as the faces define it\<close>

text \<open>At position \<open>j\<close> of a face with \<open>n\<close> vertices, the predecessor is position \<open>j - 1\<close> and
  the successor position \<open>j + 1\<close>, both modulo \<open>n\<close>. The neighbors of a vertex \<open>v\<close> are the
  vertices at the predecessor and the successor of every position where \<open>v\<close> stands, in
  every face.\<close>

definition predecessor :: "nat \<Rightarrow> nat \<Rightarrow> nat" where
  "predecessor n j = (j + n - 1) mod n"

definition successor :: "nat \<Rightarrow> nat \<Rightarrow> nat" where
  "successor n j = (j + 1) mod n"

definition polygon_neighbors :: "nat list \<Rightarrow> nat \<Rightarrow> nat list" where
  "polygon_neighbors polygon v =
     concat (map (\<lambda>j. if polygon ! j = v
                       then [polygon ! predecessor (length polygon) j,
                             polygon ! successor (length polygon) j]
                       else [])
               [0..<length polygon])"

definition face_neighbors :: "nat list list \<Rightarrow> nat \<Rightarrow> nat set" where
  "face_neighbors polys v = set (concat (map (\<lambda>polygon. polygon_neighbors polygon v) polys))"

text \<open>Every index of every face is an index into the vertex buffer.\<close>

definition valid_polygons :: "'a Convex_scheme \<Rightarrow> bool" where
  "valid_polygons c = list_all (list_all (\<lambda>i. i < num_points c)) (polygons c)"

text \<open>The number of entries of the whole table.\<close>

definition total_neighbors :: "'a Convex_scheme \<Rightarrow> nat" where
  "total_neighbors c = sum_list (map (\<lambda>v. card (face_neighbors (polygons c) v)) [0..<num_points c])"

text \<open>The invariant of the first loop: every set is an ascending list without
  repetition, and the counter is the number of elements of all sets, modulo \<open>2^32\<close>.\<close>

definition sets_ok :: "nat list list \<times> 32 word \<Rightarrow> bool" where
  "sets_ok st \<longleftrightarrow>
     (\<forall>s \<in> set (fst st). sorted s \<and> distinct s) \<and>
     snd st = of_nat (sum_list (map length (fst st)))"

section \<open>Concrete instances\<close>

text \<open>Two contacts between the same objects and primitives, with the same normal and
  depth, whose nearest points differ and have the same midpoint.\<close>

definition contact_far :: Contact where
  "contact_far =
     Contact_init (Some 1) (Some 2) 0 0 (Finite 0, Finite 0, Finite 0)
       (Finite 2, Finite 0, Finite 0) (Finite 1, Finite 0, Finite 0) (Finite 2)"

definition contact_near :: Contact where
  "contact_near =
     Contact_init (Some 1) (Some 2) 0 0 (Finite 1, Finite 0, Finite 0)
       (Finite 1, Finite 0, Finite 0) (Finite 1, Finite 0, Finite 0) (Finite 2)"

definition two_contacts :: CollisionResult where
  "two_contacts =
     addContact (addContact (CollisionResult_init (Vec3f_Zero, Vec3f_Zero)) contact_far)
       contact_near"

definition three_calls :: "update_args list" where
  "three_calls =
     [(Finite 3, Some 1, Some 2, 4, 5, Vec3f_Zero, Vec3f_Zero, Vec3f_Zero),
      (Finite 1, Some 1, Some 2, 6, 7, Vec3f_Zero, Vec3f_Zero, (Finite 1, Finite 0, Finite 0)),
      (Finite 1, Some 1, Some 2, 8, 9, Vec3f_Zero, Vec3f_Zero, (Finite 0, Finite 1, Finite 0))]"

definition cached_request :: QueryRequest where
  "cached_request =
     \<lparr>gjk_initial_guess = CachedGuess, enable_cached_gjk_guess = False,
      gjk_variant = DefaultGJK, gjk_convergence_criterion = VDB,
      gjk_convergence_criterion_type = Relative, gjk_tolerance = Finite (1 / 10 ^ 6),
      gjk_max_iterations = 128, QueryRequest.cached_gjk_guess = (Finite 1, Finite 0, Finite 0),
      QueryRequest.cached_support_func_guess = (0, 0), enable_timings = False,
      collision_distance_threshold = Finite (1 / 10 ^ 12)\<rparr>"

definition solved_result :: QueryResult where
  "solved_result =
     QueryResult_init\<lparr>cached_gjk_guess := (Finite 0, Finite 0, Finite 3),
                      cached_support_func_guess := (4, 7)\<rparr>"

text \<open>The unit cube: vertex \<open>4 x + 2 y + z\<close> has the coordinates \<open>\<plusminus>1/2\<close> chosen by the bits
  \<open>x\<close>, \<open>y\<close>, \<open>z\<close>; the six faces are wound counter-clockwise seen from outside. Then the
  table \<^verbatim>\<open>fillNeighbors\<close> builds for it, and the same cube with the vertices in the
  opposite order, the faces permuted and each started at another corner.\<close>

definition cube_points :: "Vec3f list" where
  "cube_points =
     [(Finite (- 1 / 2), Finite (- 1 / 2), Finite (- 1 / 2)),
      (Finite (- 1 / 2), Finite (- 1 / 2), Finite (1 / 2)),
      (Finite (- 1 / 2), Finite (1 / 2), Finite (- 1 / 2)),
      (Finite (- 1 / 2), Finite (1 / 2), Finite (1 / 2)),
      (Finite (1 / 2), Finite (- 1 / 2), Finite (- 1 / 2)),
      (Finite (1 / 2), Finite (- 1 / 2), Finite (1 / 2)),
      (Finite (1 / 2), Finite (1 / 2), Finite (- 1 / 2)),
      (Finite (1 / 2), Finite (1 / 2), Finite (1 / 2))]"

definition cube_polygons :: "nat list list" where
  "cube_polygons = [[4, 6, 7, 5], [0, 1, 3, 2], [2, 3, 7, 6], [0, 4, 5, 1], [1, 5, 7, 3], [0, 2, 6, 4]]"

definition cube :: Convex where
  "cube = \<lparr>points = cube_points, polygons = cube_polygons, neighbors = [], nneighbors_buf = []\<rparr>"

definition cube_filled :: Convex where
  "cube_filled =
     cube\<lparr>neighbors := [\<lparr>nb_count = 3, nb_n = 0\<rparr>, \<lparr>nb_count = 3, nb_n = 3\<rparr>,
      \<lparr>nb_count = 3, nb_n = 6\<rparr>, \<lparr>nb_count = 3, nb_n = 9\<rparr>, \<lparr>nb_count = 3, nb_n = 12\<rparr>,
      \<lparr>nb_count = 3, nb_n = 15\<rparr>, \<lparr>nb_count = 3, nb_n = 18\<rparr>, \<lparr>nb_count = 3, nb_n = 21\<rparr>],
     nneighbors_buf := [1, 2, 4, 0, 3, 5, 0, 3, 6, 1, 2, 7, 0, 5, 6, 1, 4, 7, 2, 4, 7, 3, 5, 6]\<rparr>"

text \<open>A fan of 128 triangles around vertex 0, over 256 vertices: vertex 0 has the 255
  neighbors 1, ..., 255.\<close>

definition fan :: "nat list list" where
  "fan = map (\<lambda>i. [0, 2 * i + 1, 2 * i + 2]) [0..<127] @ [[0, 255, 1]]"

definition fan_convex :: Convex where
  "fan_convex = \<lparr>points = replicate 256 Vec3f_Zero, polygons = fan, neighbors = [], nneighbors_buf = []\<rparr>"

definition cube_relabelled :: Convex where
  "cube_relabelled =
     \<lparr>points = rev cube_points,
      polygons = [[2, 0, 4, 6], [3, 7, 5, 1], [2, 3, 1, 0], [6, 4, 5, 7], [5, 4, 0, 1], [2, 6, 7, 3]],
      neighbors = [], nneighbors_buf = []\<rparr>"

text \<open>A polytope is a unit cube when its faces, read as cycles of coordinates, are the six
  faces above, in any order and each started at any corner.\<close>

definition unit_cube_faces :: "Vec3f list list" where
  "unit_cube_faces = map (face_points cube_points) cube_polygons"

definition is_unit_cube :: "'a Convex_scheme \<Rightarrow> bool" where
  "is_unit_cube c \<longleftrightarrow>
     valid_polygons c \<and> mset (points c) = mset cube_points \<and>
     (\<exists>rs. length rs = length unit_cube_faces \<and>
        mset (map (face_points (points c)) (polygons c)) =
          mset (map (\<lambda>(r, face). rotate r face) (zip rs unit_cube_faces)))"

text \<open>The finite values as reals, for the sums below.\<close>

fun is_finite :: "FCL_REAL \<Rightarrow> bool" where
  "is_finite (Finite x) = True"
| "is_finite _ = False"

fun the_real :: "FCL_REAL \<Rightarrow> real" where
  "the_real (Finite x) = x"
| "the_real _ = 0"

fun finite3 :: "Vec3f \<Rightarrow> bool" where
  "finite3 (x, y, z) = (is_finite x \<and> is_finite y \<and> is_finite z)"

fun real3 :: "Vec3f \<Rightarrow> real \<times> real \<times> real" where
  "real3 (x, y, z) = (the_real x, the_real y, the_real z)"

definition com_sum :: "Vec3f list \<Rightarrow> real \<times> real \<times> real" where
  "com_sum vs =
     (sum_list (map (\<lambda>t. fst (real3 t)) (com_terms vs)),
      sum_list (map (\<lambda>t. fst (snd (real3 t))) (com_terms vs)),
      sum_list (map (\<lambda>t. snd (snd (real3 t))) (com_terms vs)))"

definition cube_face_ok :: "Vec3f list \<Rightarrow> Vec3f list \<Rightarrow> bool" where
  "cube_face_ok face g \<longleftrightarrow>
     six_vols g = replicate 4 (Finite (1 / 4)) \<and> list_all finite3 (com_terms g) \<and>
     com_sum g = com_sum face"

section \<open>Properties of the comparison\<close>

lemma fcl_less_irrefl [simp]: "\<not> fcl_less a a"
  by (cases a) simp_all

lemma fcl_less_trans: "fcl_less a b \<Longrightarrow> fcl_less b c \<Longrightarrow> fcl_less a c"
  by (cases a; cases b; cases c) simp_all

lemma fcl_le_iff: "a \<noteq> NaN \<Longrightarrow> b \<noteq> NaN \<Longrightarrow> fcl_le a b \<longleftrightarrow> \<not> fcl_less b a"
  by (cases a; cases b) (auto simp: fcl_le_def fcl_eq_def)

lemma FCL_REAL_max_not_PosInf: "FCL_REAL_max \<noteq> PosInf"
  by (simp add: FCL_REAL_max_def)

section \<open>Properties of the query results\<close>

subsection \<open>Contacts\<close>

text \<open>
  C4. Equality of contacts is meant to compare every component of the record. On
  \<open>contact_far\<close> and \<open>contact_near\<close>, which the constructor builds from different nearest
  points, \<^verbatim>\<open>operator==\<close> answers true: it never looks at \<^verbatim>\<open>nearest_points\<close>.
\<close>

theorem Contact_eq_skips_nearest_points:
  "Contact_eq contact_far contact_near \<and>
   Contact.nearest_points contact_far \<noteq> Contact.nearest_points contact_near"
  by (simp add: contact_far_def contact_near_def Contact_init_def Contact_eq_def fcl_eq_def)

text \<open>
  C5. \<^verbatim>\<open>getContact(i)\<close> on a result without contacts throws \<^verbatim>\<open>std::invalid_argument\<close> for
  every \<open>i\<close>; with \<open>N \<ge> 1\<close> contacts it returns contact \<open>i\<close> when \<open>i < N\<close> and contact \<open>N - 1\<close>
  when \<open>i \<ge> N\<close>.
\<close>

theorem getContact_index:
  "(numContacts r = 0 \<longrightarrow> getContact r i = Inl Invalid_argument) \<and>
   (1 \<le> numContacts r \<and> i < numContacts r \<longrightarrow> getContact r i = Inr (contacts r ! i)) \<and>
   (1 \<le> numContacts r \<and> numContacts r \<le> i \<longrightarrow>
      getContact r i = Inr (contacts r ! (numContacts r - 1)))"
  by (auto simp: getContact_def numContacts_def last_conv_nth)

theorem getContact_index_witness:
  "numContacts (CollisionResult_init (Vec3f_Zero, Vec3f_Zero)) = 0 \<and>
   getContact (CollisionResult_init (Vec3f_Zero, Vec3f_Zero)) 3 = Inl Invalid_argument \<and>
   numContacts two_contacts = 2 \<and>
   getContact two_contacts 0 = Inr contact_far \<and>
   getContact two_contacts 7 = Inr contact_near"
  using getContact_index [of "CollisionResult_init (Vec3f_Zero, Vec3f_Zero)" 3]
    getContact_index [of two_contacts 0] getContact_index [of two_contacts 7]
  by (simp add: two_contacts_def addContact_def numContacts_def CollisionResult_init_def
      QueryResult.defs CollisionResult.defs)

subsection \<open>The lower bound of a collision result\<close>

lemma foldl_updateDistanceLowerBound_not_less:
  "\<not> fcl_less (distance_lower_bound r)
       (distance_lower_bound (foldl updateDistanceLowerBound r ds))"
proof (induction ds arbitrary: r)
  case Nil
  then show ?case by simp
next
  case (Cons d ds)
  let ?r1 = "updateDistanceLowerBound r d"
  have ih: "\<not> fcl_less (distance_lower_bound ?r1)
              (distance_lower_bound (foldl updateDistanceLowerBound ?r1 ds))"
    by (rule Cons.IH)
  show ?case
  proof (cases "fcl_less d (distance_lower_bound r)")
    case True
    then have "distance_lower_bound ?r1 = d"
      by (simp add: updateDistanceLowerBound_def)
    with ih True show ?thesis
      by (auto dest: fcl_less_trans)
  next
    case False
    then have "?r1 = r"
      by (simp add: updateDistanceLowerBound_def)
    with ih show ?thesis by simp
  qed
qed

lemma foldl_updateDistanceLowerBound_min:
  "distance_lower_bound r \<noteq> NaN \<Longrightarrow> NaN \<notin> set ds \<Longrightarrow>
   distance_lower_bound (foldl updateDistanceLowerBound r ds) \<in> set (distance_lower_bound r # ds) \<and>
   (\<forall>x \<in> set (distance_lower_bound r # ds).
      fcl_le (distance_lower_bound (foldl updateDistanceLowerBound r ds)) x)"
proof (induction ds arbitrary: r)
  case Nil
  then show ?case by (simp add: fcl_le_def fcl_eq_def)
next
  case (Cons d ds)
  let ?r1 = "updateDistanceLowerBound r d"
  let ?f = "distance_lower_bound (foldl updateDistanceLowerBound ?r1 ds)"
  have d: "d \<noteq> NaN" and ds: "NaN \<notin> set ds" using Cons.prems by auto
  have r1: "distance_lower_bound ?r1 \<noteq> NaN"
    using Cons.prems d by (simp add: updateDistanceLowerBound_def)
  from Cons.IH [OF r1 ds]
  have mem: "?f \<in> set (distance_lower_bound ?r1 # ds)"
    and le: "\<forall>x \<in> set (distance_lower_bound ?r1 # ds). fcl_le ?f x" by auto
  have f: "?f \<noteq> NaN" using mem r1 ds by auto
  have le1: "fcl_le ?f (distance_lower_bound ?r1)" using le by simp
  have "fcl_le ?f d \<and> fcl_le ?f (distance_lower_bound r)"
  proof (cases "fcl_less d (distance_lower_bound r)")
    case True
    then have e: "distance_lower_bound ?r1 = d" by (simp add: updateDistanceLowerBound_def)
    with le1 have "fcl_le ?f d" by simp
    moreover have "fcl_le ?f (distance_lower_bound r)"
      using le1 e True f d Cons.prems(1)
      by (cases ?f; cases d; cases "distance_lower_bound r") (auto simp: fcl_le_def fcl_eq_def)
    ultimately show ?thesis by simp
  next
    case False
    then have e: "distance_lower_bound ?r1 = distance_lower_bound r"
      by (simp add: updateDistanceLowerBound_def)
    with le1 have "fcl_le ?f (distance_lower_bound r)" by simp
    moreover have "fcl_le ?f d"
      using le1 e False f d Cons.prems(1)
      by (cases ?f; cases d; cases "distance_lower_bound r") (auto simp: fcl_le_def fcl_eq_def)
    ultimately show ?thesis by simp
  qed
  moreover have "?f \<in> set (distance_lower_bound r # d # ds)"
    using mem by (auto simp: updateDistanceLowerBound_def split: if_splits)
  ultimately show ?case using le by auto
qed

text \<open>
  C7. A call of \<^verbatim>\<open>updateDistanceLowerBound\<close> changes \<^verbatim>\<open>distance_lower_bound\<close> only, to the
  candidate when that is smaller and to itself otherwise. The new bound is never larger
  than the old one, after one call and between any two points of a sequence of calls. When
  no NaN is involved, the bound after the calls \<open>ds\<close> is the minimum of the starting bound
  and the candidates: one of them, and below or equal to each.
\<close>

theorem updateDistanceLowerBound_keeps_minimum:
  "updateDistanceLowerBound r d =
     r\<lparr>distance_lower_bound :=
         (if fcl_less d (distance_lower_bound r) then d else distance_lower_bound r)\<rparr> \<and>
   \<not> fcl_less (distance_lower_bound r) (distance_lower_bound (updateDistanceLowerBound r d)) \<and>
   \<not> fcl_less (distance_lower_bound (foldl updateDistanceLowerBound r ds))
        (distance_lower_bound (foldl updateDistanceLowerBound r (ds @ es))) \<and>
   (distance_lower_bound r \<noteq> NaN \<and> NaN \<notin> set ds \<longrightarrow>
      distance_lower_bound (foldl updateDistanceLowerBound r ds) \<in> set (distance_lower_bound r # ds) \<and>
      (\<forall>x \<in> set (distance_lower_bound r # ds).
         fcl_le (distance_lower_bound (foldl updateDistanceLowerBound r ds)) x))"
proof -
  have a: "updateDistanceLowerBound r d =
     r\<lparr>distance_lower_bound :=
         (if fcl_less d (distance_lower_bound r) then d else distance_lower_bound r)\<rparr>"
    by (simp add: updateDistanceLowerBound_def)
  have b: "\<not> fcl_less (distance_lower_bound r) (distance_lower_bound (updateDistanceLowerBound r d))"
    using foldl_updateDistanceLowerBound_not_less [of r "[d]"] by simp
  have c: "\<not> fcl_less (distance_lower_bound (foldl updateDistanceLowerBound r ds))
        (distance_lower_bound (foldl updateDistanceLowerBound r (ds @ es)))"
    using foldl_updateDistanceLowerBound_not_less [of "foldl updateDistanceLowerBound r ds" es]
    by simp
  show ?thesis using a b c foldl_updateDistanceLowerBound_min [of r ds] by blast
qed

theorem updateDistanceLowerBound_keeps_minimum_witness:
  "distance_lower_bound two_contacts \<noteq> NaN \<and> NaN \<notin> set [Finite 5, Finite 2, Finite 4] \<and>
   distance_lower_bound
     (foldl updateDistanceLowerBound two_contacts [Finite 5, Finite 2, Finite 4]) = Finite 2 \<and>
   fcl_le (Finite 2) (distance_lower_bound two_contacts) \<and> fcl_le (Finite 2) (Finite 5) \<and>
   fcl_le (Finite 2) (Finite 2) \<and> fcl_le (Finite 2) (Finite 4)"
  using updateDistanceLowerBound_keeps_minimum
    [of two_contacts "Finite 5" "[Finite 5, Finite 2, Finite 4]" "[]"]
  by (simp add: two_contacts_def addContact_def CollisionResult_init_def
      updateDistanceLowerBound_def FCL_REAL_max_def fcl_le_def fcl_eq_def
      QueryResult.defs CollisionResult.defs)

subsection \<open>Clearing a result\<close>

text \<open>
  C6 as stated: after \<^verbatim>\<open>clear()\<close> the bound of a collision result, and the minimum distance
  of a distance result, are plus infinity. They are not: on freshly constructed results
  both are the largest finite value.
\<close>

theorem clear_not_infinity:
  "distance_lower_bound
     (CollisionResult_clear (CollisionResult_init (Vec3f_Zero, Vec3f_Zero))) \<noteq> PosInf \<and>
   min_distance (DistanceResult_clear (DistanceResult_default () ())) \<noteq> PosInf"
  by (simp add: CollisionResult_clear_def DistanceResult_clear_def Let_def FCL_REAL_max_def)

lemma CPUTimes_clear_init: "CPUTimes_clear (t :: CPUTimes) = CPUTimes_init"
  by (simp add: CPUTimes_clear_def CPUTimes_init_def)

text \<open>
  C6, amended. After \<^verbatim>\<open>clear()\<close>, whatever the state before, a collision result has no
  contacts, its \<^verbatim>\<open>distance_lower_bound\<close> is \<^verbatim>\<open>numeric_limits<FCL_REAL>::max()\<close> (the largest
  finite value, not infinity) and its timings are those of a new result; a distance
  result has \<^verbatim>\<open>min_distance\<close> at the same largest finite value, null objects, primitive
  ids \<^verbatim>\<open>NONE\<close>, NaN nearest points and normal, and the timings of a new result. These are
  the values the default constructors set: clearing a new result changes nothing, and
  clearing twice is clearing once.
\<close>

theorem clear_resets_to_defaults:
  "numContacts (CollisionResult_clear r) = 0 \<and>
   distance_lower_bound (CollisionResult_clear r) = FCL_REAL_max \<and>
   timings (CollisionResult_clear r) = CPUTimes_init \<and>
   CollisionResult_clear (CollisionResult_clear r) = CollisionResult_clear r \<and>
   CollisionResult_clear (CollisionResult_init np) = CollisionResult_init np \<and>
   min_distance (DistanceResult_clear d) = FCL_REAL_max \<and>
   o1 (DistanceResult_clear d) = None \<and> o2 (DistanceResult_clear d) = None \<and>
   b1 (DistanceResult_clear d) = NONE \<and> b2 (DistanceResult_clear d) = NONE \<and>
   nearest_points (DistanceResult_clear d) = (Vec3f_Constant NaN, Vec3f_Constant NaN) \<and>
   normal (DistanceResult_clear d) = Vec3f_Constant NaN \<and>
   timings (DistanceResult_clear d) = CPUTimes_init \<and>
   DistanceResult_clear (DistanceResult_clear d) = DistanceResult_clear d \<and>
   DistanceResult_clear (DistanceResult_default m s) = DistanceResult_default m s \<and>
   FCL_REAL_max \<noteq> PosInf"
  by (simp add: CollisionResult_clear_def DistanceResult_clear_def Let_def numContacts_def
      CPUTimes_clear_init CollisionResult_init_def DistanceResult_default_def
      DistanceResult_init_def QueryResult_init_def FCL_REAL_max_not_PosInf
      QueryResult.defs CollisionResult.defs DistanceResult.defs)

text \<open>
  C10. \<^verbatim>\<open>clear()\<close> on a collision result and on a distance result leaves the two inherited
  cache fields, \<^verbatim>\<open>cached_gjk_guess\<close> and \<^verbatim>\<open>cached_support_func_guess\<close>, as they were.
\<close>

theorem clear_keeps_cached_guess:
  "cached_gjk_guess (CollisionResult_clear r) = cached_gjk_guess r \<and>
   cached_support_func_guess (CollisionResult_clear r) = cached_support_func_guess r \<and>
   cached_gjk_guess (DistanceResult_clear d) = cached_gjk_guess d \<and>
   cached_support_func_guess (DistanceResult_clear d) = cached_support_func_guess d"
  by (simp add: CollisionResult_clear_def DistanceResult_clear_def Let_def)

subsection \<open>Warm start\<close>

text \<open>
  C9. The request selects the cached warm start through \<^verbatim>\<open>gjk_initial_guess\<close> being
  \<^verbatim>\<open>CachedGuess\<close> or through the deprecated flag \<^verbatim>\<open>enable_cached_gjk_guess\<close>. When it does,
  \<^verbatim>\<open>updateGuess(result)\<close> copies the result's \<^verbatim>\<open>cached_gjk_guess\<close> and
  \<^verbatim>\<open>cached_support_func_guess\<close> into the request and changes nothing else; when it does
  not, the request is unchanged.
\<close>

theorem updateGuess_copies:
  "(gjk_initial_guess req = CachedGuess \<or> enable_cached_gjk_guess req \<longrightarrow>
      updateGuess req res =
        req\<lparr>QueryRequest.cached_gjk_guess := cached_gjk_guess res,
            QueryRequest.cached_support_func_guess := cached_support_func_guess res\<rparr>) \<and>
   (\<not> (gjk_initial_guess req = CachedGuess \<or> enable_cached_gjk_guess req) \<longrightarrow>
      updateGuess req res = req)"
  by (simp add: updateGuess_def Let_def)

theorem updateGuess_copies_witness:
  "gjk_initial_guess cached_request = CachedGuess \<and>
   QueryRequest.cached_gjk_guess (updateGuess cached_request solved_result) =
     (Finite 0, Finite 0, Finite 3) \<and>
   QueryRequest.cached_support_func_guess (updateGuess cached_request solved_result) = (4, 7) \<and>
   \<not> (gjk_initial_guess (cached_request\<lparr>gjk_initial_guess := DefaultGuess\<rparr>) = CachedGuess \<or>
      enable_cached_gjk_guess (cached_request\<lparr>gjk_initial_guess := DefaultGuess\<rparr>)) \<and>
   updateGuess (cached_request\<lparr>gjk_initial_guess := DefaultGuess\<rparr>) solved_result =
     cached_request\<lparr>gjk_initial_guess := DefaultGuess\<rparr>"
  using updateGuess_copies [of cached_request solved_result]
    updateGuess_copies [of "cached_request\<lparr>gjk_initial_guess := DefaultGuess\<rparr>" solved_result]
  by (simp add: cached_request_def solved_result_def QueryResult_init_def)

subsection \<open>The minimum distance of a distance result\<close>

lemma update_call_cases:
  "update_call r a = (if fcl_less (fst a) (min_distance r) then replaced_by r a else r)"
  by (simp add: update_call_def update_def replaced_by_def fcl_greater_def split: prod.splits)

lemma replaced_by_twice: "replaced_by (replaced_by r a) b = replaced_by r b"
  by (simp add: replaced_by_def split: prod.splits)

lemma min_distance_replaced_by: "min_distance (replaced_by r a) = fst a"
  by (simp add: replaced_by_def split: prod.splits)

lemma update_calls_snoc: "update_calls r (calls @ [a]) = update_call (update_calls r calls) a"
  by (simp add: update_calls_def)

lemma update_calls_winner: "nobody_wins r calls \<or> (\<exists>k. wins r calls k)"
proof (induction calls rule: rev_induct)
  case Nil
  then show ?case by (simp add: nobody_wins_def update_calls_def)
next
  case (snoc a calls)
  let ?n = "length calls"
  let ?m0 = "min_distance r"
  from snoc.IH show ?case
  proof
    assume A: "nobody_wins r calls"
    then have r': "update_calls r calls = r"
      and none: "\<And>i. i < ?n \<Longrightarrow> \<not> fcl_less (fst (calls ! i)) ?m0"
      by (auto simp: nobody_wins_def)
    show ?thesis
    proof (cases "fcl_less (fst a) ?m0")
      case True
      have "wins r (calls @ [a]) ?n"
        unfolding wins_def
      proof (intro conjI allI impI)
        show "?n < length (calls @ [a])" by simp
        show "update_calls r (calls @ [a]) = replaced_by r ((calls @ [a]) ! ?n)"
          using True r' by (simp add: update_calls_snoc update_call_cases)
        show "fcl_less (fst ((calls @ [a]) ! ?n)) ?m0" using True by simp
      next
        fix i assume "i < length (calls @ [a])"
        then consider "i < ?n" | "i = ?n" by force
        then show "\<not> fcl_less (fst ((calls @ [a]) ! i)) (fst ((calls @ [a]) ! ?n))"
        proof cases
          case 1
          then show ?thesis using none [OF 1] True
            by (auto simp: nth_append dest: fcl_less_trans)
        next
          case 2
          then show ?thesis by simp
        qed
      next
        fix i assume "i < ?n"
        then show "fst ((calls @ [a]) ! i) \<noteq> fst ((calls @ [a]) ! ?n)"
          using none [of i] True by (auto simp: nth_append)
      qed
      then show ?thesis by blast
    next
      case False
      have "nobody_wins r (calls @ [a])"
        unfolding nobody_wins_def
        using False r' none
        by (auto simp: update_calls_snoc update_call_cases nth_append less_Suc_eq)
      then show ?thesis by blast
    qed
  next
    assume "\<exists>k. wins r calls k"
    then obtain k where k: "k < ?n"
      and r': "update_calls r calls = replaced_by r (calls ! k)"
      and km0: "fcl_less (fst (calls ! k)) ?m0"
      and least: "\<And>i. i < ?n \<Longrightarrow> \<not> fcl_less (fst (calls ! i)) (fst (calls ! k))"
      and first: "\<And>i. i < k \<Longrightarrow> fst (calls ! i) \<noteq> fst (calls ! k)"
      by (auto simp: wins_def)
    show ?thesis
    proof (cases "fcl_less (fst a) (fst (calls ! k))")
      case True
      have "wins r (calls @ [a]) ?n"
        unfolding wins_def
      proof (intro conjI allI impI)
        show "?n < length (calls @ [a])" by simp
        show "update_calls r (calls @ [a]) = replaced_by r ((calls @ [a]) ! ?n)"
          using True r'
          by (simp add: update_calls_snoc update_call_cases min_distance_replaced_by
              replaced_by_twice)
        show "fcl_less (fst ((calls @ [a]) ! ?n)) ?m0"
          using True km0 by (auto dest: fcl_less_trans)
      next
        fix i assume "i < length (calls @ [a])"
        then consider "i < ?n" | "i = ?n" by force
        then show "\<not> fcl_less (fst ((calls @ [a]) ! i)) (fst ((calls @ [a]) ! ?n))"
        proof cases
          case 1
          then show ?thesis using least [OF 1] True
            by (auto simp: nth_append dest: fcl_less_trans)
        next
          case 2
          then show ?thesis by simp
        qed
      next
        fix i assume "i < ?n"
        then show "fst ((calls @ [a]) ! i) \<noteq> fst ((calls @ [a]) ! ?n)"
          using least [of i] True by (auto simp: nth_append)
      qed
      then show ?thesis by blast
    next
      case False
      have "wins r (calls @ [a]) k"
        unfolding wins_def
        using False k r' km0 least first
        by (auto simp: update_calls_snoc update_call_cases min_distance_replaced_by
            nth_append less_Suc_eq)
      then show ?thesis by blast
    qed
  qed
qed

lemma update_calls_minimum:
  assumes m0: "min_distance r \<noteq> NaN" and ds: "\<forall>a \<in> set calls. fst a \<noteq> NaN"
  shows "min_distance (update_calls r calls) \<in> set (min_distance r # map fst calls) \<and>
         (\<forall>x \<in> set (min_distance r # map fst calls).
            fcl_le (min_distance (update_calls r calls)) x)"
proof -
  have nn: "\<And>i. i < length calls \<Longrightarrow> fst (calls ! i) \<noteq> NaN"
    using ds by simp
  from update_calls_winner [of r calls] show ?thesis
  proof
    assume "nobody_wins r calls"
    then have r': "update_calls r calls = r"
      and none: "\<And>i. i < length calls \<Longrightarrow> \<not> fcl_less (fst (calls ! i)) (min_distance r)"
      by (auto simp: nobody_wins_def)
    have "fcl_le (min_distance r) x" if "x \<in> set (map fst calls)" for x
    proof -
      from that obtain i where "i < length calls" "x = fst (calls ! i)"
        by (auto simp: in_set_conv_nth)
      then show ?thesis using none [of i] nn [of i] m0 by (simp add: fcl_le_iff)
    qed
    moreover have "fcl_le (min_distance r) (min_distance r)"
      using m0 by (simp add: fcl_le_def fcl_eq_def)
    ultimately show ?thesis using r' by auto
  next
    assume "\<exists>k. wins r calls k"
    then obtain k where k: "k < length calls"
      and r': "update_calls r calls = replaced_by r (calls ! k)"
      and km0: "fcl_less (fst (calls ! k)) (min_distance r)"
      and least: "\<And>i. i < length calls \<Longrightarrow> \<not> fcl_less (fst (calls ! i)) (fst (calls ! k))"
      by (auto simp: wins_def)
    have md: "min_distance (update_calls r calls) = fst (calls ! k)"
      using r' by (simp add: min_distance_replaced_by)
    have "fcl_le (fst (calls ! k)) x" if "x \<in> set (map fst calls)" for x
    proof -
      from that obtain i where "i < length calls" "x = fst (calls ! i)"
        by (auto simp: in_set_conv_nth)
      then show ?thesis using least [of i] nn [of i] nn [OF k] by (simp add: fcl_le_iff)
    qed
    moreover have "fcl_le (fst (calls ! k)) (min_distance r)"
      using km0 by (simp add: fcl_le_def)
    moreover have "fst (calls ! k) \<in> set (map fst calls)"
      using k by simp
    ultimately show ?thesis using md by auto
  qed
qed

text \<open>
  C2 as stated: after any sequence of calls the final \<^verbatim>\<open>min_distance\<close> is the minimum of the
  distances passed. A result constructed with \<^verbatim>\<open>min_distance\<close> \<open>1/2\<close> and updated once with
  distance \<open>1\<close> keeps \<open>1/2\<close>; a default-constructed result updated once with distance plus
  infinity keeps the largest finite value.
\<close>

theorem update_min_counterexample:
  "min_distance (update_calls (DistanceResult_init () () (Finite (1 / 2)))
      [(Finite 1, Some 1, Some 2, 0, 0, Vec3f_Zero, Vec3f_Zero, Vec3f_Zero)]) \<noteq> Finite 1 \<and>
   min_distance (update_calls (DistanceResult_default () ())
      [(PosInf, Some 1, Some 2, 0, 0, Vec3f_Zero, Vec3f_Zero, Vec3f_Zero)]) \<noteq> PosInf"
  by (simp add: update_calls_def update_call_def update_def fcl_greater_def
      DistanceResult_init_def DistanceResult_default_def FCL_REAL_max_def
      QueryResult.defs DistanceResult.defs)

text \<open>
  C2, amended. A call of \<^verbatim>\<open>update\<close> replaces \<^verbatim>\<open>min_distance\<close>, \<^verbatim>\<open>o1\<close>, \<^verbatim>\<open>o2\<close>, \<^verbatim>\<open>b1\<close>, \<^verbatim>\<open>b2\<close>,
  \<^verbatim>\<open>nearest_points\<close> and \<^verbatim>\<open>normal\<close> together when its distance is strictly below the current
  \<^verbatim>\<open>min_distance\<close>, and changes nothing otherwise. After a sequence of calls, either no
  distance was below the \<^verbatim>\<open>min_distance\<close> the result started with and the result is
  unchanged, or the seven fields are the arguments of the first call with the smallest
  distance. When no NaN is involved, the final \<^verbatim>\<open>min_distance\<close> is the minimum of the
  starting \<^verbatim>\<open>min_distance\<close> and the distances passed.
\<close>

theorem update_best_so_far:
  "(fcl_less distance (min_distance r) \<longrightarrow>
      update r distance o1' o2' b1' b2' p1 p2 normal' =
        r\<lparr>min_distance := distance, o1 := o1', o2 := o2', b1 := b1', b2 := b2',
          nearest_points := (p1, p2), normal := normal'\<rparr>) \<and>
   (\<not> fcl_less distance (min_distance r) \<longrightarrow>
      update r distance o1' o2' b1' b2' p1 p2 normal' = r) \<and>
   (nobody_wins r calls \<or> (\<exists>k. wins r calls k)) \<and>
   (min_distance r \<noteq> NaN \<and> (\<forall>a \<in> set calls. fst a \<noteq> NaN) \<longrightarrow>
      min_distance (update_calls r calls) \<in> set (min_distance r # map fst calls) \<and>
      (\<forall>x \<in> set (min_distance r # map fst calls).
         fcl_le (min_distance (update_calls r calls)) x))"
  using update_calls_winner [of r calls] update_calls_minimum [of r calls]
  by (simp add: update_def fcl_greater_def)

lemma three_calls_second_wins:
  "update_calls (DistanceResult_default () ()) three_calls =
     replaced_by (DistanceResult_default () ()) (three_calls ! 1)"
  by (simp add: three_calls_def update_calls_def update_call_def update_def replaced_by_def
      fcl_greater_def DistanceResult_default_def DistanceResult_init_def FCL_REAL_max_def
      QueryResult.defs DistanceResult.defs)

theorem update_best_so_far_witness:
  "fcl_less (Finite 3) (min_distance (DistanceResult_default () ())) \<and>
   min_distance (update (DistanceResult_default () ()) (Finite 3) (Some 1) (Some 2) 4 5
      Vec3f_Zero Vec3f_Zero Vec3f_Zero) = Finite 3 \<and>
   \<not> fcl_less PosInf (min_distance (DistanceResult_default () ())) \<and>
   update (DistanceResult_default () ()) PosInf (Some 1) (Some 2) 4 5
      Vec3f_Zero Vec3f_Zero Vec3f_Zero = DistanceResult_default () () \<and>
   wins (DistanceResult_default () ()) three_calls 1 \<and>
   min_distance (DistanceResult_default () ()) \<noteq> NaN \<and>
   NaN \<notin> set (map fst three_calls) \<and>
   min_distance (update_calls (DistanceResult_default () ()) three_calls) = Finite 1 \<and>
   b1 (update_calls (DistanceResult_default () ()) three_calls) = 6"
  using update_best_so_far [of "Finite 3" "DistanceResult_default () ()" "Some 1" "Some 2" 4 5
      Vec3f_Zero Vec3f_Zero Vec3f_Zero three_calls]
    update_best_so_far [of PosInf "DistanceResult_default () ()" "Some 1" "Some 2" 4 5
      Vec3f_Zero Vec3f_Zero Vec3f_Zero three_calls]
  apply (simp add: wins_def three_calls_second_wins)
  apply (simp add: three_calls_def replaced_by_def fcl_greater_def DistanceResult_default_def
      DistanceResult_init_def FCL_REAL_max_def QueryResult.defs DistanceResult.defs
      less_Suc_eq numeral_2_eq_2 numeral_3_eq_3)
  done

section \<open>Properties of the adjacency table\<close>

subsection \<open>Predecessor and successor\<close>

lemma predecessor_code: "j < n \<Longrightarrow> predecessor n j = (if j = 0 then n - 1 else j - 1)"
  by (auto simp: predecessor_def mod_if)

lemma successor_code: "j < n \<Longrightarrow> successor n j = (if j = n - 1 then 0 else j + 1)"
  by (auto simp: successor_def mod_if)

lemma predecessor_less: "j < n \<Longrightarrow> predecessor n j < n"
  by (simp add: predecessor_def)

lemma successor_less: "j < n \<Longrightarrow> successor n j < n"
  by (simp add: successor_def)

lemma successor_predecessor: "j < n \<Longrightarrow> successor n (predecessor n j) = j"
  by (auto simp: predecessor_code successor_code predecessor_less)

lemma predecessor_successor: "j < n \<Longrightarrow> predecessor n (successor n j) = j"
  by (auto simp: predecessor_code successor_code successor_less)

lemma mem_polygon_neighbors:
  "u \<in> set (polygon_neighbors polygon v) \<longleftrightarrow>
     (\<exists>j < length polygon. polygon ! j = v \<and>
        (u = polygon ! predecessor (length polygon) j \<or>
         u = polygon ! successor (length polygon) j))"
  by (auto simp: polygon_neighbors_def split: if_splits)

lemma mem_face_neighbors:
  "u \<in> face_neighbors polys v \<longleftrightarrow> (\<exists>polygon \<in> set polys. u \<in> set (polygon_neighbors polygon v))"
  by (auto simp: face_neighbors_def)

lemma polygon_neighbors_sym:
  "u \<in> set (polygon_neighbors polygon v) \<Longrightarrow> v \<in> set (polygon_neighbors polygon u)"
  unfolding mem_polygon_neighbors
proof (elim exE conjE disjE)
  fix j assume j: "j < length polygon" "polygon ! j = v"
    and u: "u = polygon ! predecessor (length polygon) j"
  show "\<exists>j<length polygon. polygon ! j = u \<and>
          (v = polygon ! predecessor (length polygon) j \<or>
           v = polygon ! successor (length polygon) j)"
    using j u predecessor_less [OF j(1)] successor_predecessor [OF j(1)]
    by (intro exI [of _ "predecessor (length polygon) j"]) simp
next
  fix j assume j: "j < length polygon" "polygon ! j = v"
    and u: "u = polygon ! successor (length polygon) j"
  show "\<exists>j<length polygon. polygon ! j = u \<and>
          (v = polygon ! predecessor (length polygon) j \<or>
           v = polygon ! successor (length polygon) j)"
    using j u successor_less [OF j(1)] predecessor_successor [OF j(1)]
    by (intro exI [of _ "successor (length polygon) j"]) simp
qed

lemma face_neighbors_sym: "u \<in> face_neighbors polys v \<longleftrightarrow> v \<in> face_neighbors polys u"
  by (auto simp: mem_face_neighbors dest: polygon_neighbors_sym)

subsection \<open>The loop over the faces\<close>

lemma face_neighbors_Cons:
  "face_neighbors (polygon # polys) v = set (polygon_neighbors polygon v) \<union> face_neighbors polys v"
  by (simp add: face_neighbors_def)

lemma update_neighbors_props:
  assumes ok: "sets_ok (nn, c)" and pj: "pj < length nn"
    and upd: "update_neighbors (nn, c) pj p = (nn', c')"
  shows "sets_ok (nn', c')" and "length nn' = length nn"
    and "set (nn' ! pj) = insert p (set (nn ! pj))"
    and "\<And>v. v \<noteq> pj \<Longrightarrow> nn' ! v = nn ! v"
proof -
  show len: "length nn' = length nn"
    using upd by (auto simp: update_neighbors_def split: if_splits)
  show "set (nn' ! pj) = insert p (set (nn ! pj))"
    using upd pj
    by (auto simp: update_neighbors_def set_count_def set_insert_def set_insort_key
        split: if_splits)
  show "\<And>v. v \<noteq> pj \<Longrightarrow> nn' ! v = nn ! v"
    using upd by (auto simp: update_neighbors_def split: if_splits)
  show "sets_ok (nn', c')"
  proof (cases "p \<in> set (nn ! pj)")
    case True
    then have "nn' = nn" "c' = c"
      using upd by (auto simp: update_neighbors_def set_count_def)
    then show ?thesis using ok by simp
  next
    case False
    then have nn': "nn' = nn[pj := insort p (nn ! pj)]" and c': "c' = c + 1"
      using upd by (auto simp: update_neighbors_def set_count_def set_insert_def)
    have s: "sorted (nn ! pj) \<and> distinct (nn ! pj)"
      using ok pj by (auto simp: sets_ok_def)
    have a: "\<forall>s \<in> set nn'. sorted s \<and> distinct s"
    proof
      fix s assume "s \<in> set nn'"
      then have "s = insort p (nn ! pj) \<or> s \<in> set nn"
        unfolding nn' using set_update_subset_insert [of nn pj "insort p (nn ! pj)"] by auto
      then show "sorted s \<and> distinct s"
        using s False ok by (auto simp: sets_ok_def sorted_insort distinct_insort)
    qed
    have "sum_list (map length nn') = sum_list (map length nn) + 1"
    proof -
      have "map length nn' = (map length nn)[pj := length (nn ! pj) + 1]"
        unfolding nn' by (simp add: map_update)
      moreover have "(map length nn) ! pj = length (nn ! pj)" using pj by simp
      moreover have "pj < length (map length nn)" using pj by simp
      ultimately show ?thesis
        by (simp add: sum_list_update)
    qed
    then have "c' = of_nat (sum_list (map length nn'))"
      using ok c' by (simp add: sets_ok_def)
    with a show ?thesis by (simp add: sets_ok_def)
  qed
qed

lemma neighbors_step_props:
  assumes ok: "sets_ok (nn, c)" and j: "j < length polygon"
    and step: "neighbors_step polygon j (nn, c) = Inr (nn', c')"
  shows "sets_ok (nn', c')" and "length nn' = length nn" and "polygon ! j < length nn"
    and "\<And>v. v < length nn \<Longrightarrow>
           set (nn' ! v) = set (nn ! v) \<union>
             (if polygon ! j = v
              then {polygon ! predecessor (length polygon) j, polygon ! successor (length polygon) j}
              else {})"
proof -
  let ?pj = "polygon ! j"
  let ?pi = "polygon ! predecessor (length polygon) j"
  let ?pk = "polygon ! successor (length polygon) j"
  show pj: "?pj < length nn"
    using step by (auto simp: neighbors_step_def Let_def split: if_splits)
  obtain nn1 c1 where u1: "update_neighbors (nn, c) ?pj ?pi = (nn1, c1)"
    by (cases "update_neighbors (nn, c) ?pj ?pi") auto
  have st': "update_neighbors (nn1, c1) ?pj ?pk = (nn', c')"
    using step pj u1 j
    by (simp add: neighbors_step_def Let_def predecessor_code successor_code split: if_splits)
  note p1 = update_neighbors_props [OF ok pj u1]
  have pj1: "?pj < length nn1" using p1(2) pj by simp
  note p2 = update_neighbors_props [OF p1(1) pj1 st']
  show "sets_ok (nn', c')" by (rule p2(1))
  show "length nn' = length nn" using p1(2) p2(2) by simp
  show "\<And>v. v < length nn \<Longrightarrow>
           set (nn' ! v) = set (nn ! v) \<union>
             (if polygon ! j = v then {?pi, ?pk} else {})"
    using p1(3) p1(4) p2(3) p2(4) by auto
qed

lemma neighbors_step_succeeds:
  "polygon ! j < length nn \<Longrightarrow> \<exists>st'. neighbors_step polygon j (nn, c) = Inr st'"
  by (simp add: neighbors_step_def Let_def)

lemma neighbors_polygon_loop_props:
  assumes "sets_ok (nn, c)" and "set js \<subseteq> {..<length polygon}"
    and "neighbors_polygon_loop polygon js (nn, c) = Inr (nn', c')"
  shows "sets_ok (nn', c') \<and> length nn' = length nn \<and>
         (\<forall>j \<in> set js. polygon ! j < length nn) \<and>
         (\<forall>v < length nn. set (nn' ! v) = set (nn ! v) \<union>
            {u. \<exists>j \<in> set js. polygon ! j = v \<and>
               (u = polygon ! predecessor (length polygon) j \<or>
                u = polygon ! successor (length polygon) j)})"
  using assms
proof (induction js arbitrary: nn c)
  case Nil
  then show ?case by simp
next
  case (Cons j js)
  from Cons.prems(3) obtain nn1 c1 where
    step: "neighbors_step polygon j (nn, c) = Inr (nn1, c1)"
    and rest: "neighbors_polygon_loop polygon js (nn1, c1) = Inr (nn', c')"
    by (auto split: sum.splits)
  have j: "j < length polygon" and js: "set js \<subseteq> {..<length polygon}"
    using Cons.prems(2) by auto
  note s = neighbors_step_props [OF Cons.prems(1) j step]
  from Cons.IH [OF s(1) js rest] s(2)
  have ih: "sets_ok (nn', c')" "length nn' = length nn"
    "\<forall>j \<in> set js. polygon ! j < length nn"
    "\<forall>v < length nn. set (nn' ! v) = set (nn1 ! v) \<union>
            {u. \<exists>j \<in> set js. polygon ! j = v \<and>
               (u = polygon ! predecessor (length polygon) j \<or>
                u = polygon ! successor (length polygon) j)}"
    by auto
  have "set (nn' ! v) = set (nn ! v) \<union>
            {u. \<exists>j' \<in> set (j # js). polygon ! j' = v \<and>
               (u = polygon ! predecessor (length polygon) j' \<or>
                u = polygon ! successor (length polygon) j')}" if v: "v < length nn" for v
    using ih(4) s(4) [OF v] v by auto
  then show ?case using ih(1,2,3) s(3) by simp
qed

lemma neighbors_polygon_loop_upt:
  assumes "sets_ok (nn, c)"
    and "neighbors_polygon_loop polygon [0..<length polygon] (nn, c) = Inr (nn', c')"
  shows "sets_ok (nn', c') \<and> length nn' = length nn \<and>
         (\<forall>i \<in> set polygon. i < length nn) \<and>
         (\<forall>v < length nn. set (nn' ! v) = set (nn ! v) \<union> set (polygon_neighbors polygon v))"
proof -
  have "set [0..<length polygon] \<subseteq> {..<length polygon}" by auto
  from neighbors_polygon_loop_props [OF assms(1) this assms(2)]
  have p: "sets_ok (nn', c')" "length nn' = length nn"
    "\<forall>j \<in> set [0..<length polygon]. polygon ! j < length nn"
    "\<forall>v < length nn. set (nn' ! v) = set (nn ! v) \<union>
            {u. \<exists>j \<in> set [0..<length polygon]. polygon ! j = v \<and>
               (u = polygon ! predecessor (length polygon) j \<or>
                u = polygon ! successor (length polygon) j)}"
    by auto
  have "\<forall>i \<in> set polygon. i < length nn"
    using p(3) by (auto simp: in_set_conv_nth)
  moreover have "{u. \<exists>j \<in> set [0..<length polygon]. polygon ! j = v \<and>
               (u = polygon ! predecessor (length polygon) j \<or>
                u = polygon ! successor (length polygon) j)} = set (polygon_neighbors polygon v)" for v
    unfolding set_eq_iff mem_polygon_neighbors by (simp add: Bex_def)
  ultimately show ?thesis using p by simp
qed

lemma neighbors_loop_props:
  assumes "sets_ok (nn, c)" and "neighbors_loop polys (nn, c) = Inr (nn', c')"
  shows "sets_ok (nn', c') \<and> length nn' = length nn \<and>
         (\<forall>polygon \<in> set polys. \<forall>i \<in> set polygon. i < length nn) \<and>
         (\<forall>v < length nn. set (nn' ! v) = set (nn ! v) \<union> face_neighbors polys v)"
  using assms
proof (induction polys arbitrary: nn c)
  case Nil
  then show ?case by (simp add: face_neighbors_def)
next
  case (Cons polygon polys)
  from Cons.prems(2) obtain nn1 c1 where
    inner: "neighbors_polygon_loop polygon [0..<length polygon] (nn, c) = Inr (nn1, c1)"
    and rest: "neighbors_loop polys (nn1, c1) = Inr (nn', c')"
    by (auto split: sum.splits)
  from neighbors_polygon_loop_upt [OF Cons.prems(1) inner]
  have p: "sets_ok (nn1, c1)" "length nn1 = length nn" "\<forall>i \<in> set polygon. i < length nn"
    "\<forall>v < length nn. set (nn1 ! v) = set (nn ! v) \<union> set (polygon_neighbors polygon v)"
    by auto
  from Cons.IH [OF p(1) rest] p(2)
  have ih: "sets_ok (nn', c')" "length nn' = length nn"
    "\<forall>polygon \<in> set polys. \<forall>i \<in> set polygon. i < length nn"
    "\<forall>v < length nn. set (nn' ! v) = set (nn1 ! v) \<union> face_neighbors polys v"
    by auto
  show ?case using p(3,4) ih by (auto simp: face_neighbors_Cons)
qed

lemma neighbors_polygon_loop_succeeds:
  assumes "\<forall>j \<in> set js. polygon ! j < length nn"
  shows "\<exists>nn' c'. neighbors_polygon_loop polygon js (nn, c) = Inr (nn', c') \<and> length nn' = length nn"
  using assms
proof (induction js arbitrary: nn c)
  case Nil
  then show ?case by simp
next
  case (Cons j js)
  have pj: "polygon ! j < length nn" using Cons.prems by simp
  obtain nn1 c1 where step: "neighbors_step polygon j (nn, c) = Inr (nn1, c1)"
    using neighbors_step_succeeds [OF pj] by (metis surj_pair)
  have len: "length nn1 = length nn"
    using step
    by (auto simp: neighbors_step_def Let_def update_neighbors_def split: if_splits)
  from Cons.IH [of nn1 c1] Cons.prems len step show ?case by simp
qed

lemma neighbors_loop_succeeds:
  assumes "\<forall>polygon \<in> set polys. \<forall>i \<in> set polygon. i < length nn"
  shows "\<exists>nn' c'. neighbors_loop polys (nn, c) = Inr (nn', c')"
  using assms
proof (induction polys arbitrary: nn c)
  case Nil
  then show ?case by simp
next
  case (Cons polygon polys)
  have "\<forall>j \<in> set [0..<length polygon]. polygon ! j < length nn"
    using Cons.prems by simp
  from neighbors_polygon_loop_succeeds [OF this, of c]
  obtain nn1 c1 where
    inner: "neighbors_polygon_loop polygon [0..<length polygon] (nn, c) = Inr (nn1, c1)"
    and len: "length nn1 = length nn" by blast
  from Cons.IH [of nn1 c1] Cons.prems len inner show ?case by simp
qed

subsection \<open>The loop that fills the table\<close>

lemma flatten_loop_props:
  assumes "flatten_loop cap ss (ns, buf) = Inr (ns', buf')"
  shows "length ns' = length ns + length ss \<and> buf' = buf @ concat ss \<and>
         (\<forall>s \<in> set ss. length s < unsigned_char_max) \<and>
         (\<forall>i < length ns. ns' ! i = ns ! i) \<and>
         (\<forall>i < length ss. ns' ! (length ns + i) =
            \<lparr>nb_count = of_nat (length (ss ! i)),
             nb_n = length buf + length (concat (take i ss))\<rparr>)"
  using assms
proof (induction ss arbitrary: ns buf)
  case Nil
  then show ?case by simp
next
  case (Cons s ss)
  let ?e = "\<lparr>nb_count = of_nat (length s), nb_n = length buf\<rparr>"
  from Cons.prems have s: "length s < unsigned_char_max"
    and rest: "flatten_loop cap ss (ns @ [?e], buf @ s) = Inr (ns', buf')"
    by (auto split: if_splits)
  from Cons.IH [OF rest]
  have ih: "length ns' = length ns + 1 + length ss" "buf' = buf @ s @ concat ss"
    "\<forall>s \<in> set ss. length s < unsigned_char_max"
    "\<forall>i < length ns + 1. ns' ! i = (ns @ [?e]) ! i"
    "\<forall>i < length ss. ns' ! (length ns + 1 + i) =
            \<lparr>nb_count = of_nat (length (ss ! i)),
             nb_n = length buf + length s + length (concat (take i ss))\<rparr>"
    by auto
  have old: "\<forall>i < length ns. ns' ! i = ns ! i"
    using ih(4) by (auto simp: nth_append)
  have new: "ns' ! (length ns + i) =
            \<lparr>nb_count = of_nat (length ((s # ss) ! i)),
             nb_n = length buf + length (concat (take i (s # ss)))\<rparr>"
    if i: "i < length (s # ss)" for i
  proof (cases i)
    case 0
    then show ?thesis using ih(4) by (simp add: nth_append)
  next
    case (Suc k)
    then have "k < length ss" using i by simp
    with ih(5) Suc show ?thesis by simp
  qed
  show ?case using ih(1,2,3) s old new by simp
qed

lemma flatten_loop_succeeds:
  assumes "\<forall>s \<in> set ss. length s < unsigned_char_max"
    and "length buf + length (concat ss) \<le> cap"
  shows "\<exists>ns' buf'. flatten_loop cap ss (ns, buf) = Inr (ns', buf')"
  using assms
proof (induction ss arbitrary: ns buf)
  case Nil
  then show ?case by simp
next
  case (Cons s ss)
  have "length (buf @ s) + length (concat ss) \<le> cap" using Cons.prems(2) by simp
  with Cons.IH [of "buf @ s"] Cons.prems show ?case by auto
qed

lemma flatten_loop_too_many:
  assumes "\<exists>s \<in> set ss. unsigned_char_max \<le> length s"
    and "length buf + length (concat ss) \<le> cap"
  shows "flatten_loop cap ss (ns, buf) = Inl Logic_error"
  using assms
proof (induction ss arbitrary: ns buf)
  case Nil
  then show ?case by simp
next
  case (Cons s ss)
  show ?case
  proof (cases "unsigned_char_max \<le> length s")
    case True
    then show ?thesis by simp
  next
    case False
    then have ex: "\<exists>s \<in> set ss. unsigned_char_max \<le> length s" using Cons.prems(1) by auto
    have "length (buf @ s) + length (concat ss) \<le> cap" using Cons.prems(2) by simp
    from Cons.IH [OF ex this] False Cons.prems(2) show ?thesis by simp
  qed
qed

lemma take_drop_concat:
  assumes "i < length ss"
  shows "take (length (ss ! i)) (drop (length (concat (take i ss))) (concat ss)) = ss ! i"
proof -
  have "ss = take i ss @ ss ! i # drop (Suc i) ss"
    using assms by (rule id_take_nth_drop)
  then have "concat ss = concat (take i ss) @ ss ! i @ concat (drop (Suc i) ss)"
    by (metis concat.simps(2) concat_append)
  then show ?thesis by simp
qed

lemma sets_ok_init: "sets_ok (replicate n [], 0)"
  by (simp add: sets_ok_def sum_list_replicate)

subsection \<open>The whole construction\<close>

lemma neighbors_loop_result:
  assumes "neighbors_loop (polygons c) (replicate (num_points c) [], 0) = Inr (nn, cn)"
  shows "valid_polygons c" and "length nn = num_points c"
    and "\<And>v. v < num_points c \<Longrightarrow> set (nn ! v) = face_neighbors (polygons c) v"
    and "\<And>v. v < num_points c \<Longrightarrow> distinct (nn ! v) \<and> sorted (nn ! v)"
    and "\<And>v. v < num_points c \<Longrightarrow> length (nn ! v) = card (face_neighbors (polygons c) v)"
    and "length (concat nn) = total_neighbors c"
    and "cn = of_nat (total_neighbors c)"
proof -
  from neighbors_loop_props [OF sets_ok_init assms]
  have p: "sets_ok (nn, cn)" "length nn = num_points c"
    "\<forall>polygon \<in> set (polygons c). \<forall>i \<in> set polygon. i < num_points c"
    "\<forall>v < num_points c. set (nn ! v) = face_neighbors (polygons c) v"
    by auto
  show "valid_polygons c" using p(3) by (simp add: valid_polygons_def list_all_iff)
  show len: "length nn = num_points c" by (rule p(2))
  show set: "\<And>v. v < num_points c \<Longrightarrow> set (nn ! v) = face_neighbors (polygons c) v"
    using p(4) by simp
  show ds: "\<And>v. v < num_points c \<Longrightarrow> distinct (nn ! v) \<and> sorted (nn ! v)"
    using p(1) len by (auto simp: sets_ok_def)
  show card: "length (nn ! v) = card (face_neighbors (polygons c) v)" if v: "v < num_points c" for v
  proof -
    have "card (set (nn ! v)) = length (nn ! v)"
      using ds [OF v] by (simp add: distinct_card)
    then show ?thesis using set [OF v] by simp
  qed
  have "map length nn = map length (map ((!) nn) [0..<length nn])"
    by (simp only: map_nth)
  also have "\<dots> = map (\<lambda>v. length (nn ! v)) [0..<length nn]"
    by (simp only: map_map comp_def)
  also have "\<dots> = map (\<lambda>v. card (face_neighbors (polygons c) v)) [0..<num_points c]"
    using card len by simp
  finally have "sum_list (map length nn) = total_neighbors c"
    by (simp add: total_neighbors_def)
  then show "length (concat nn) = total_neighbors c" "cn = of_nat (total_neighbors c)"
    using p(1) by (simp_all add: length_concat sets_ok_def)
qed

lemma neighbors_loop_valid:
  assumes "valid_polygons c"
  shows "\<exists>nn cn. neighbors_loop (polygons c) (replicate (num_points c) [], 0) = Inr (nn, cn)"
  using assms neighbors_loop_succeeds [of "polygons c" "replicate (num_points c) []" 0]
  by (simp add: valid_polygons_def list_all_iff)

lemma unat_total_neighbors:
  "total_neighbors c < 2 ^ 32 \<Longrightarrow> unat (of_nat (total_neighbors c) :: 32 word) = total_neighbors c"
  by (simp add: unat_of_nat)

lemma unat_count:
  "n < unsigned_char_max \<Longrightarrow> unat (of_nat n :: 8 word) = n"
  by (simp add: unat_of_nat unsigned_char_max_def)

lemma fillNeighbors_Inr:
  assumes "fillNeighbors c = Inr c'"
  shows "valid_polygons c" and "points c' = points c" and "polygons c' = polygons c"
    and "length (neighbors c') = num_points c"
    and "length (nneighbors_buf c') = total_neighbors c"
    and "\<And>v. v < num_points c \<Longrightarrow>
           set (neighbors_of c' v) = face_neighbors (polygons c) v \<and>
           distinct (neighbors_of c' v) \<and>
           unat (nb_count (neighbors c' ! v)) = card (face_neighbors (polygons c) v) \<and>
           card (face_neighbors (polygons c) v) < unsigned_char_max"
proof -
  from assms obtain nn cn ns buf where
    loop: "neighbors_loop (polygons c) (replicate (num_points c) [], 0) = Inr (nn, cn)"
    and flat: "flatten_loop (unat cn) nn ([], []) = Inr (ns, buf)"
    and c': "c' = c\<lparr>neighbors := ns, nneighbors_buf := buf\<rparr>"
    by (auto simp: fillNeighbors_def split: sum.splits prod.splits)
  note l = neighbors_loop_result [OF loop]
  from flatten_loop_props [OF flat]
  have f: "length ns = length nn" "buf = concat nn"
    "\<forall>s \<in> set nn. length s < unsigned_char_max"
    "\<forall>i < length nn. ns ! i =
       \<lparr>nb_count = of_nat (length (nn ! i)), nb_n = length (concat (take i nn))\<rparr>"
    by auto
  show "valid_polygons c" by (rule l(1))
  show "points c' = points c" "polygons c' = polygons c" using c' by simp_all
  show "length (neighbors c') = num_points c" using c' f(1) l(2) by simp
  show "length (nneighbors_buf c') = total_neighbors c" using c' f(2) l(6) by simp
  fix v assume v: "v < num_points c"
  then have vn: "v < length nn" using l(2) by simp
  have small: "length (nn ! v) < unsigned_char_max" using f(3) vn by simp
  have e: "neighbors c' ! v =
       \<lparr>nb_count = of_nat (length (nn ! v)), nb_n = length (concat (take v nn))\<rparr>"
    using c' f(4) vn by simp
  have cnt: "unat (nb_count (neighbors c' ! v)) = length (nn ! v)"
    using e small by (simp add: unat_count)
  have view: "neighbors_of c' v = nn ! v"
    unfolding neighbors_of_def cnt using e c' f(2) take_drop_concat [OF vn] by simp
  show "set (neighbors_of c' v) = face_neighbors (polygons c) v \<and>
           distinct (neighbors_of c' v) \<and>
           unat (nb_count (neighbors c' ! v)) = card (face_neighbors (polygons c) v) \<and>
           card (face_neighbors (polygons c) v) < unsigned_char_max"
    using view cnt small l(3) [OF v] l(4) [OF v] l(5) [OF v] by simp
qed

lemma fillNeighbors_succeeds:
  assumes valid: "valid_polygons c" and total: "total_neighbors c < 2 ^ 32"
    and small: "\<forall>v < num_points c. card (face_neighbors (polygons c) v) < unsigned_char_max"
  shows "\<exists>c'. fillNeighbors c = Inr c'"
proof -
  from neighbors_loop_valid [OF valid] obtain nn cn where
    loop: "neighbors_loop (polygons c) (replicate (num_points c) [], 0) = Inr (nn, cn)"
    by blast
  note l = neighbors_loop_result [OF loop]
  have cap: "unat cn = total_neighbors c"
    using l(7) total by (simp add: unat_total_neighbors)
  have "\<forall>s \<in> set nn. length s < unsigned_char_max"
    using small l(2) l(5) by (auto simp: in_set_conv_nth)
  moreover have "length ([] :: nat list) + length (concat nn) \<le> unat cn"
    using cap l(6) by simp
  ultimately obtain ns buf where "flatten_loop (unat cn) nn ([], []) = Inr (ns, buf)"
    using flatten_loop_succeeds by blast
  then show ?thesis using loop by (simp add: fillNeighbors_def)
qed

lemma fillNeighbors_too_many:
  assumes valid: "valid_polygons c" and total: "total_neighbors c < 2 ^ 32"
    and big: "\<exists>v < num_points c. unsigned_char_max \<le> card (face_neighbors (polygons c) v)"
  shows "fillNeighbors c = Inl Logic_error"
proof -
  from neighbors_loop_valid [OF valid] obtain nn cn where
    loop: "neighbors_loop (polygons c) (replicate (num_points c) [], 0) = Inr (nn, cn)"
    by blast
  note l = neighbors_loop_result [OF loop]
  have cap: "unat cn = total_neighbors c"
    using l(7) total by (simp add: unat_total_neighbors)
  from big obtain v where v: "v < num_points c"
    and "unsigned_char_max \<le> card (face_neighbors (polygons c) v)" by blast
  then have "nn ! v \<in> set nn" "unsigned_char_max \<le> length (nn ! v)"
    using l(2) l(5) by simp_all
  then have "\<exists>s \<in> set nn. unsigned_char_max \<le> length s" by blast
  moreover have "length ([] :: nat list) + length (concat nn) \<le> unat cn"
    using cap l(6) by simp
  ultimately have "flatten_loop (unat cn) nn ([], []) = Inl Logic_error"
    by (rule flatten_loop_too_many)
  then show ?thesis using loop by (simp add: fillNeighbors_def)
qed

lemma neighbors_polygon_loop_Inl:
  "neighbors_polygon_loop polygon js st = Inl e \<Longrightarrow> e = Undefined_behaviour"
proof (induction js arbitrary: st)
  case Nil
  then show ?case by simp
next
  case (Cons j js)
  then show ?case
    by (auto simp: neighbors_step_def Let_def split: sum.splits if_splits)
qed

lemma neighbors_loop_Inl: "neighbors_loop polys st = Inl e \<Longrightarrow> e = Undefined_behaviour"
proof (induction polys arbitrary: st)
  case Nil
  then show ?case by simp
next
  case (Cons polygon polys)
  then show ?case
    by (auto split: sum.splits dest: neighbors_polygon_loop_Inl)
qed

lemma fillNeighbors_invalid:
  assumes "\<not> valid_polygons c"
  shows "fillNeighbors c = Inl Undefined_behaviour"
proof (cases "neighbors_loop (polygons c) (replicate (num_points c) [], 0)")
  case (Inl e)
  then show ?thesis using neighbors_loop_Inl [OF Inl] by (simp add: fillNeighbors_def)
next
  case (Inr st)
  then obtain nn cn where "neighbors_loop (polygons c) (replicate (num_points c) [], 0) = Inr (nn, cn)"
    by (cases st) auto
  from neighbors_loop_result(1) [OF this] assms show ?thesis by simp
qed

subsection \<open>The fan of triangles\<close>

lemma polygon_neighbors_triangle:
  "polygon_neighbors [a, b, c] v =
     (if a = v then [c, b] else []) @ (if b = v then [a, c] else []) @ (if c = v then [b, a] else [])"
  by (simp add: polygon_neighbors_def predecessor_def successor_def upt_rec)

lemma face_neighbors_fan:
  "face_neighbors fan v =
     (\<Union>i \<in> {0..<127}. set (polygon_neighbors [0, 2 * i + 1, 2 * i + 2] v)) \<union>
     set (polygon_neighbors [0, 255, 1] v)"
  by (simp add: face_neighbors_def fan_def)

lemma face_neighbors_fan_0: "face_neighbors fan 0 = {1..255}"
proof
  show "face_neighbors fan 0 \<subseteq> {1..255}"
    by (auto simp: face_neighbors_fan polygon_neighbors_triangle)
  show "{1..255} \<subseteq> face_neighbors fan 0"
  proof
    fix x :: nat assume "x \<in> {1..255}"
    then have x: "1 \<le> x" "x \<le> 255" by auto
    show "x \<in> face_neighbors fan 0"
    proof (cases "x = 255")
      case True
      then show ?thesis by (simp add: face_neighbors_fan polygon_neighbors_triangle)
    next
      case False
      let ?i = "(x - 1) div 2"
      have i: "?i \<in> {0..<127}" using x False by auto
      have "x = 2 * ?i + 1 \<or> x = 2 * ?i + 2" using x by presburger
      then have "x \<in> set (polygon_neighbors [0, 2 * ?i + 1, 2 * ?i + 2] 0)"
        by (auto simp: polygon_neighbors_triangle)
      with i show ?thesis unfolding face_neighbors_fan by blast
    qed
  qed
qed

lemma face_neighbors_fan_other:
  assumes "0 < v"
  shows "face_neighbors fan v \<subseteq> {0, v - 1, v + 1, 1, 255}"
  using assms
  by (auto simp: face_neighbors_fan polygon_neighbors_triangle split: if_splits)

lemma card_face_neighbors_fan: "card (face_neighbors fan v) \<le> 255"
proof (cases "v = 0")
  case True
  then show ?thesis by (simp add: face_neighbors_fan_0)
next
  case False
  then have "card (face_neighbors fan v) \<le> card {0, v - 1, v + 1, 1, 255}"
    by (intro card_mono face_neighbors_fan_other) auto
  also have "\<dots> \<le> 5" by (simp add: card_insert_if)
  finally show ?thesis by simp
qed

lemma sum_list_bounded:
  "\<forall>x \<in> set xs. f x \<le> (b::nat) \<Longrightarrow> sum_list (map f xs) \<le> length xs * b"
  by (induction xs) auto

lemma fan_valid: "valid_polygons fan_convex"
  by (auto simp: valid_polygons_def fan_convex_def fan_def num_points_def list_all_iff)

lemma fan_total: "total_neighbors fan_convex < 2 ^ 32"
proof -
  have "total_neighbors fan_convex \<le> length [0..<256] * 255"
    unfolding total_neighbors_def fan_convex_def num_points_def
    using sum_list_bounded [of "[0..<256]" "\<lambda>v. card (face_neighbors fan v)" 255]
    by (simp add: card_face_neighbors_fan)
  then show ?thesis by simp
qed

lemma fan_too_many:
  "\<exists>v < num_points fan_convex. 255 \<le> card (face_neighbors (polygons fan_convex) v)"
  by (rule exI [of _ 0]) (simp add: fan_convex_def num_points_def face_neighbors_fan_0)

text \<open>
  C1 as stated: construction succeeds whenever every vertex has at most 255 distinct
  neighbors. In the fan no vertex has more than 255 neighbors, vertex 0 has exactly 255,
  and \<^verbatim>\<open>fillNeighbors\<close> throws.
\<close>

theorem fillNeighbors_255_counterexample:
  "fillNeighbors fan_convex = Inl Logic_error \<and>
   list_all (\<lambda>v. card (face_neighbors (polygons fan_convex) v) \<le> 255)
     [0..<num_points fan_convex] \<and>
   card (face_neighbors (polygons fan_convex) 0) = 255"
proof -
  have "fillNeighbors fan_convex = Inl Logic_error"
    using fan_valid fan_total fan_too_many
    by (intro fillNeighbors_too_many) (simp_all add: unsigned_char_max_def)
  moreover have "list_all (\<lambda>v. card (face_neighbors (polygons fan_convex) v) \<le> 255)
     [0..<num_points fan_convex]"
    by (simp add: list_all_iff fan_convex_def card_face_neighbors_fan)
  moreover have "card (face_neighbors (polygons fan_convex) 0) = 255"
    by (simp add: fan_convex_def face_neighbors_fan_0)
  ultimately show ?thesis by simp
qed

subsection \<open>Capacity and symmetry\<close>

text \<open>
  C1, amended. For a polytope whose faces hold valid vertex indices and whose table has
  fewer than \<open>2^32\<close> entries, \<^verbatim>\<open>fillNeighbors\<close> (run by the constructor and by \<^verbatim>\<open>set\<close>) succeeds
  when every vertex has at most 254 distinct neighbors, and throws the logic error
  "Too many neighbors" when some vertex has 255 or more. Whenever it succeeds, the byte
  \<^verbatim>\<open>count_\<close> of every vertex is the number of its distinct neighbors and the stored
  neighbors are exactly those the faces define: nothing is truncated. A face index outside
  the vertex buffer is undefined behaviour.
\<close>

theorem fillNeighbors_capacity:
  "(valid_polygons c \<and> total_neighbors c < 2 ^ 32 \<and>
    (\<forall>v < num_points c. card (face_neighbors (polygons c) v) \<le> 254) \<longrightarrow>
      (\<exists>c'. fillNeighbors c = Inr c')) \<and>
   (valid_polygons c \<and> total_neighbors c < 2 ^ 32 \<and>
    (\<exists>v < num_points c. 255 \<le> card (face_neighbors (polygons c) v)) \<longrightarrow>
      fillNeighbors c = Inl Logic_error) \<and>
   (fillNeighbors c = Inr c' \<longrightarrow>
      valid_polygons c \<and> points c' = points c \<and> polygons c' = polygons c \<and>
      length (neighbors c') = num_points c \<and>
      (\<forall>v < num_points c.
         card (face_neighbors (polygons c) v) \<le> 254 \<and>
         unat (nb_count (neighbors c' ! v)) = card (face_neighbors (polygons c) v) \<and>
         distinct (neighbors_of c' v) \<and>
         set (neighbors_of c' v) = face_neighbors (polygons c) v)) \<and>
   (\<not> valid_polygons c \<longrightarrow> fillNeighbors c = Inl Undefined_behaviour)"
proof (intro conjI impI)
  assume a: "valid_polygons c \<and> total_neighbors c < 2 ^ 32 \<and>
    (\<forall>v < num_points c. card (face_neighbors (polygons c) v) \<le> 254)"
  then have "\<forall>v < num_points c. card (face_neighbors (polygons c) v) < unsigned_char_max"
    by (auto simp: unsigned_char_max_def less_Suc_eq_le [symmetric])
  with a show "\<exists>c'. fillNeighbors c = Inr c'"
    by (intro fillNeighbors_succeeds) simp_all
next
  assume "valid_polygons c \<and> total_neighbors c < 2 ^ 32 \<and>
    (\<exists>v < num_points c. 255 \<le> card (face_neighbors (polygons c) v))"
  then show "fillNeighbors c = Inl Logic_error"
    by (intro fillNeighbors_too_many) (simp_all add: unsigned_char_max_def)
next
  assume r: "fillNeighbors c = Inr c'"
  note p = fillNeighbors_Inr [OF r]
  show "valid_polygons c" "points c' = points c" "polygons c' = polygons c"
    "length (neighbors c') = num_points c"
    by (rule p)+
  show "\<forall>v < num_points c.
         card (face_neighbors (polygons c) v) \<le> 254 \<and>
         unat (nb_count (neighbors c' ! v)) = card (face_neighbors (polygons c) v) \<and>
         distinct (neighbors_of c' v) \<and>
         set (neighbors_of c' v) = face_neighbors (polygons c) v"
  proof (intro allI impI)
    fix v assume v: "v < num_points c"
    from p(6) [OF v] have "card (face_neighbors (polygons c) v) < 255"
      by (simp add: unsigned_char_max_def)
    then have "card (face_neighbors (polygons c) v) \<le> 254" by arith
    with p(6) [OF v]
    show "card (face_neighbors (polygons c) v) \<le> 254 \<and>
         unat (nb_count (neighbors c' ! v)) = card (face_neighbors (polygons c) v) \<and>
         distinct (neighbors_of c' v) \<and>
         set (neighbors_of c' v) = face_neighbors (polygons c) v"
      by simp
  qed
next
  assume "\<not> valid_polygons c"
  then show "fillNeighbors c = Inl Undefined_behaviour"
    by (rule fillNeighbors_invalid)
qed

subsection \<open>The cube\<close>

lemma cube_fillNeighbors: "fillNeighbors cube = Inr cube_filled"
  by code_simp

lemma cube_valid: "valid_polygons cube"
  by code_simp

lemma cube_total: "total_neighbors cube = 24"
  by code_simp

lemma cube_cards: "list_all (\<lambda>v. card (face_neighbors (polygons cube) v) \<le> 254) [0..<num_points cube]"
  by code_simp

lemma cube_filled_view:
  "map (neighbors_of cube_filled) [0..<8] =
     [[1, 2, 4], [0, 3, 5], [0, 3, 6], [1, 2, 7], [0, 5, 6], [1, 4, 7], [2, 4, 7], [3, 5, 6]]"
  by code_simp

theorem fillNeighbors_capacity_witness:
  "valid_polygons cube \<and> total_neighbors cube < 2 ^ 32 \<and>
   list_all (\<lambda>v. card (face_neighbors (polygons cube) v) \<le> 254) [0..<num_points cube] \<and>
   fillNeighbors cube = Inr cube_filled \<and>
   unat (nb_count (neighbors cube_filled ! 0)) = card (face_neighbors (polygons cube) 0) \<and>
   set (neighbors_of cube_filled 0) = face_neighbors (polygons cube) 0 \<and>
   valid_polygons fan_convex \<and> total_neighbors fan_convex < 2 ^ 32 \<and>
   255 \<le> card (face_neighbors (polygons fan_convex) 0) \<and>
   fillNeighbors fan_convex = Inl Logic_error \<and>
   \<not> valid_polygons (cube\<lparr>polygons := [[0, 1, 8]]\<rparr>) \<and>
   fillNeighbors (cube\<lparr>polygons := [[0, 1, 8]]\<rparr>) = Inl Undefined_behaviour"
proof -
  have n8: "num_points cube = 8" by code_simp
  have bad: "\<not> valid_polygons (cube\<lparr>polygons := [[0, 1, 8]]\<rparr>)" by code_simp
  have small: "\<forall>v < num_points cube. card (face_neighbors (polygons cube) v) \<le> 254"
    using cube_cards by (simp add: list_all_iff)
  from fillNeighbors_capacity [of cube cube_filled] cube_valid cube_total small cube_fillNeighbors n8
  have a: "unat (nb_count (neighbors cube_filled ! 0)) = card (face_neighbors (polygons cube) 0)"
    "set (neighbors_of cube_filled 0) = face_neighbors (polygons cube) 0"
    by auto
  from fillNeighbors_capacity [of fan_convex fan_convex] fan_valid fan_total fan_too_many
  have b: "fillNeighbors fan_convex = Inl Logic_error" by blast
  from fillNeighbors_capacity [of "cube\<lparr>polygons := [[0, 1, 8]]\<rparr>" cube] bad
  have c: "fillNeighbors (cube\<lparr>polygons := [[0, 1, 8]]\<rparr>) = Inl Undefined_behaviour" by blast
  show ?thesis
    using a b c bad cube_valid cube_total cube_cards cube_fillNeighbors fan_valid fan_total
    by (simp add: fan_convex_def face_neighbors_fan_0)
qed

text \<open>
  C3. When \<^verbatim>\<open>fillNeighbors\<close>, the constructor or \<^verbatim>\<open>set\<close> succeeds, the table is symmetric:
  for all vertex indices \<open>u\<close> and \<open>v\<close> of the polytope, \<open>u\<close> is among the stored neighbors of
  \<open>v\<close> if and only if \<open>v\<close> is among the stored neighbors of \<open>u\<close>.
\<close>

theorem neighbor_table_symmetric:
  "(fillNeighbors c = Inr c' \<and> u < num_points c' \<and> v < num_points c' \<longrightarrow>
      (u \<in> set (neighbors_of c' v) \<longleftrightarrow> v \<in> set (neighbors_of c' u))) \<and>
   (Convex_init pts polys = Inr k \<and> u < num_points k \<and> v < num_points k \<longrightarrow>
      (u \<in> set (neighbors_of k v) \<longleftrightarrow> v \<in> set (neighbors_of k u))) \<and>
   (Convex_set c pts polys = Inr c' \<and> u < num_points c' \<and> v < num_points c' \<longrightarrow>
      (u \<in> set (neighbors_of c' v) \<longleftrightarrow> v \<in> set (neighbors_of c' u)))"
proof -
  have sym: "u \<in> set (neighbors_of b v) \<longleftrightarrow> v \<in> set (neighbors_of b u)"
    if "fillNeighbors a = Inr b" "u < num_points b" "v < num_points b"
    for a b :: "'x Convex_scheme"
  proof -
    have "num_points b = num_points a"
      using fillNeighbors_Inr(2) [OF that(1)] by (simp add: num_points_def)
    with fillNeighbors_Inr(6) [OF that(1)] that(2,3)
      face_neighbors_sym [of u "polygons a" v]
    show ?thesis by simp
  qed
  show ?thesis
    using sym [of c c'] sym [of "c\<lparr>points := pts, polygons := polys\<rparr>" c']
      sym [of "\<lparr>points = pts, polygons = polys, neighbors = [], nneighbors_buf = []\<rparr>" k]
    by (simp add: Convex_init_def Convex_set_def)
qed

theorem neighbor_table_symmetric_witness:
  "Convex_init cube_points cube_polygons = Inr cube_filled \<and>
   0 < num_points cube_filled \<and> 1 < num_points cube_filled \<and>
   1 \<in> set (neighbors_of cube_filled 0) \<and> 0 \<in> set (neighbors_of cube_filled 1) \<and>
   7 \<notin> set (neighbors_of cube_filled 0) \<and> 0 \<notin> set (neighbors_of cube_filled 7)"
proof -
  have i: "Convex_init cube_points cube_polygons = Inr cube_filled"
    using cube_fillNeighbors by (simp add: Convex_init_def cube_def)
  have n: "num_points cube_filled = 8" by code_simp
  have v: "neighbors_of cube_filled 0 = [1, 2, 4]" "neighbors_of cube_filled 7 = [3, 5, 6]"
    by code_simp+
  from neighbor_table_symmetric [of cube cube_filled 1 0 cube_points cube_polygons cube_filled]
    neighbor_table_symmetric [of cube cube_filled 7 0 cube_points cube_polygons cube_filled]
    i n v
  show ?thesis by simp
qed

section \<open>Properties of the mass integrals\<close>

subsection \<open>The loops compute the fan sums\<close>

lemma face_points_nth: "j < length polygon \<Longrightarrow> face_points pts polygon ! j = pts ! (polygon ! j)"
  by (simp add: face_points_def)

lemma face_points_nth_next:
  assumes "j < length polygon"
  shows "face_points pts polygon ! ((j + 1) mod length polygon) =
           pts ! (polygon ! ((j + 1) mod length polygon))"
proof -
  have "0 < length polygon" using assms by auto
  then have "(j + 1) mod length polygon < length polygon" by (rule mod_less_divisor)
  then show ?thesis by (rule face_points_nth)
qed

lemma length_face_points [simp]: "length (face_points pts polygon) = length polygon"
  by (simp add: face_points_def)

lemma plane_center_loop_eq:
  assumes "\<forall>j \<in> set js. polygon ! j < length pts"
  shows "plane_center_loop pts polygon js acc =
           Inr (foldl vadd acc (map (\<lambda>j. pts ! (polygon ! j)) js))"
  using assms by (induction js arbitrary: acc) (simp_all add: points_at_def)

lemma compute_plane_center_eq:
  assumes "\<forall>i \<in> set polygon. i < length pts"
  shows "compute_plane_center pts polygon = Inr (face_anchor (face_points pts polygon))"
proof -
  have "\<forall>j \<in> set [0..<length polygon]. polygon ! j < length pts"
    using assms by simp
  moreover have "map (\<lambda>j. pts ! (polygon ! j)) [0..<length polygon] = face_points pts polygon"
  proof -
    have "map (\<lambda>j. pts ! (polygon ! j)) [0..<length polygon] =
            map ((!) pts) (map ((!) polygon) [0..<length polygon])"
      by (simp only: map_map comp_def)
    then show ?thesis by (simp only: map_nth face_points_def)
  qed
  ultimately show ?thesis
    by (simp add: compute_plane_center_def plane_center_loop_eq face_anchor_def)
qed

lemma volume_edge_loop_eq:
  assumes "\<forall>i \<in> set polygon. i < length pts" and "set js \<subseteq> {..<length polygon}"
  shows "volume_edge_loop pts polygon v3 js vol =
           Inr (foldl fcl_add vol
             (map (\<lambda>j. dot (cross (pts ! (polygon ! j))
                                  (pts ! (polygon ! ((j + 1) mod length polygon)))) v3) js))"
  using assms(2)
proof (induction js arbitrary: vol)
  case Nil
  then show ?case by simp
next
  case (Cons j js)
  then have j: "j < length polygon" by simp
  then have "0 < length polygon" by auto
  then have "(j + 1) mod length polygon < length polygon" by (rule mod_less_divisor)
  then have "polygon ! j < length pts" "polygon ! ((j + 1) mod length polygon) < length pts"
    using assms(1) j by simp_all
  with Cons show ?case by (simp add: points_at_def Let_def)
qed

lemma volume_edge_loop_six_vols:
  assumes "\<forall>i \<in> set polygon. i < length pts"
  shows "volume_edge_loop pts polygon (face_anchor (face_points pts polygon))
           [0..<length polygon] vol =
         Inr (foldl fcl_add vol (six_vols (face_points pts polygon)))"
proof -
  have "map (\<lambda>j. dot (cross (pts ! (polygon ! j))
                  (pts ! (polygon ! ((j + 1) mod length polygon))))
               (face_anchor (face_points pts polygon))) [0..<length polygon] =
        six_vols (face_points pts polygon)"
    by (simp add: six_vols_def six_times_signed_volume_def face_points_nth face_points_nth_next
        del: One_nat_def add_Suc_right)
  moreover have "set [0..<length polygon] \<subseteq> {..<length polygon}" by auto
  ultimately show ?thesis
    using volume_edge_loop_eq [OF assms, of "[0..<length polygon]"] by (simp only:)
qed

lemma volume_loop_eq:
  assumes "\<forall>polygon \<in> set polys. \<forall>i \<in> set polygon. i < length pts"
  shows "volume_loop pts polys vol =
           Inr (foldl fcl_add vol (concat (map six_vols (map (face_points pts) polys))))"
  using assms
  by (induction polys arbitrary: vol)
     (simp_all add: compute_plane_center_eq volume_edge_loop_six_vols)

lemma com_edge_loop_eq:
  assumes "\<forall>i \<in> set polygon. i < length pts" and "set js \<subseteq> {..<length polygon}"
  shows "com_edge_loop pts polygon v3 js (com, vol) =
           Inr (foldl vadd com
                  (map (\<lambda>j. vscale (vadd (vadd (pts ! (polygon ! j))
                                 (pts ! (polygon ! ((j + 1) mod length polygon)))) v3)
                               (dot (cross (pts ! (polygon ! j))
                                  (pts ! (polygon ! ((j + 1) mod length polygon)))) v3)) js),
                foldl fcl_add vol
                  (map (\<lambda>j. dot (cross (pts ! (polygon ! j))
                                  (pts ! (polygon ! ((j + 1) mod length polygon)))) v3) js))"
  using assms(2)
proof (induction js arbitrary: com vol)
  case Nil
  then show ?case by simp
next
  case (Cons j js)
  then have j: "j < length polygon" by simp
  then have "0 < length polygon" by auto
  then have "(j + 1) mod length polygon < length polygon" by (rule mod_less_divisor)
  then have "polygon ! j < length pts" "polygon ! ((j + 1) mod length polygon) < length pts"
    using assms(1) j by simp_all
  with Cons show ?case by (simp add: points_at_def Let_def)
qed

lemma com_edge_loop_terms:
  assumes "\<forall>i \<in> set polygon. i < length pts"
  shows "com_edge_loop pts polygon (face_anchor (face_points pts polygon))
           [0..<length polygon] (com, vol) =
         Inr (foldl vadd com (com_terms (face_points pts polygon)),
              foldl fcl_add vol (six_vols (face_points pts polygon)))"
proof -
  let ?a = "face_anchor (face_points pts polygon)"
  have a: "map (\<lambda>j. dot (cross (pts ! (polygon ! j))
                  (pts ! (polygon ! ((j + 1) mod length polygon)))) ?a) [0..<length polygon] =
        six_vols (face_points pts polygon)"
    by (simp add: six_vols_def six_times_signed_volume_def face_points_nth face_points_nth_next
        del: One_nat_def add_Suc_right)
  have b: "map (\<lambda>j. vscale (vadd (vadd (pts ! (polygon ! j))
                                 (pts ! (polygon ! ((j + 1) mod length polygon)))) ?a)
                               (dot (cross (pts ! (polygon ! j))
                                  (pts ! (polygon ! ((j + 1) mod length polygon)))) ?a))
             [0..<length polygon] =
        com_terms (face_points pts polygon)"
    by (simp add: com_terms_def six_times_signed_volume_def face_points_nth face_points_nth_next
        del: One_nat_def add_Suc_right)
  have "set [0..<length polygon] \<subseteq> {..<length polygon}" by auto
  from com_edge_loop_eq [OF assms this, of ?a com vol]
  show ?thesis by (simp only: a b)
qed

lemma com_loop_eq:
  assumes "\<forall>polygon \<in> set polys. \<forall>i \<in> set polygon. i < length pts"
  shows "com_loop pts polys (com, vol) =
           Inr (foldl vadd com (concat (map com_terms (map (face_points pts) polys))),
                foldl fcl_add vol (concat (map six_vols (map (face_points pts) polys))))"
  using assms
  by (induction polys arbitrary: com vol)
     (simp_all add: compute_plane_center_eq com_edge_loop_terms)

lemma computeVolume_fan:
  assumes "valid_polygons c"
  shows "computeVolume c = Inr (fan_volume (map (face_points (points c)) (polygons c)))"
  using assms
  by (simp add: computeVolume_def fan_volume_def volume_loop_eq valid_polygons_def
      list_all_iff num_points_def)

lemma computeCOM_fan:
  assumes "valid_polygons c"
  shows "computeCOM c = Inr (fan_com (map (face_points (points c)) (polygons c)))"
  using assms
  by (simp add: computeCOM_def fan_com_def com_loop_eq valid_polygons_def
      list_all_iff num_points_def)

subsection \<open>The unit cube\<close>

lemma rotations_ok:
  "list_all (\<lambda>face. length face = 4 \<and> list_all (\<lambda>k. cube_face_ok face (rotate k face)) [0..<4])
     unit_cube_faces"
  by code_simp

lemma com_sum_cube:
  "(sum_list (map (\<lambda>f. fst (com_sum f)) unit_cube_faces),
    sum_list (map (\<lambda>f. fst (snd (com_sum f))) unit_cube_faces),
    sum_list (map (\<lambda>f. snd (snd (com_sum f))) unit_cube_faces)) = (0, 0, 0)"
  by code_simp


lemma rotated_face_ok:
  assumes "face \<in> set unit_cube_faces"
  shows "cube_face_ok face (rotate r face)"
proof -
  from rotations_ok assms have len: "length face = 4"
    and ok: "\<forall>k \<in> set [0..<4]. cube_face_ok face (rotate k face)"
    by (auto simp: list_all_iff)
  have "r mod 4 \<in> set [0..<4]" by simp
  with ok have "cube_face_ok face (rotate (r mod 4) face)" by blast
  moreover have "rotate r face = rotate (r mod 4) face"
    using rotate_conv_mod [of r face] len by simp
  ultimately show ?thesis by simp
qed

lemma foldl_fcl_add_const:
  "\<forall>x \<in> set xs. x = Finite q \<Longrightarrow>
   foldl fcl_add (Finite a) xs = Finite (a + real (length xs) * q)"
  by (induction xs arbitrary: a) (auto simp: algebra_simps)

lemma foldl_vadd_finite:
  "list_all finite3 ts \<Longrightarrow>
   foldl vadd (Finite a, Finite b, Finite c) ts =
     (Finite (a + sum_list (map (\<lambda>t. fst (real3 t)) ts)),
      Finite (b + sum_list (map (\<lambda>t. fst (snd (real3 t))) ts)),
      Finite (c + sum_list (map (\<lambda>t. snd (snd (real3 t))) ts)))"
proof (induction ts arbitrary: a b c)
  case Nil
  then show ?case by simp
next
  case (Cons t ts)
  obtain x y z where t: "t = (x, y, z)" by (cases t) auto
  with Cons.prems obtain x' y' z' where "x = Finite x'" "y = Finite y'" "z = Finite z'"
    by (cases x; cases y; cases z) auto
  with t Cons show ?case by (simp add: algebra_simps)
qed

lemma sum_list_map_concat:
  "sum_list (map f (concat xss)) = sum_list (map (\<lambda>xs. sum_list (map f xs)) xss)"
  by (induction xss) simp_all

lemma sum_list_rotated_faces:
  fixes h :: "Vec3f list \<Rightarrow> real"
  assumes perm: "mset gs = mset (map (\<lambda>(r, face). rotate r face) (zip rs faces))"
    and len: "length rs = length faces"
    and inv: "\<And>face r. face \<in> set faces \<Longrightarrow> h (rotate r face) = h face"
  shows "sum_list (map h gs) = sum_list (map h faces)"
proof -
  have "mset (map h gs) = mset (map h (map (\<lambda>(r, face). rotate r face) (zip rs faces)))"
    using perm by (metis mset_map)
  then have "sum_list (map h gs) =
               sum_list (map h (map (\<lambda>(r, face). rotate r face) (zip rs faces)))"
    by (metis sum_mset_sum_list)
  also have "\<dots> = sum_list (map (\<lambda>p. h (snd p)) (zip rs faces))"
  proof -
    have "map (\<lambda>p. h (case p of (r, face) \<Rightarrow> rotate r face)) (zip rs faces) =
            map (\<lambda>p. h (snd p)) (zip rs faces)"
      by (rule map_cong) (use inv in \<open>auto dest: set_zip_rightD\<close>)
    from arg_cong [OF this, of sum_list] show ?thesis by (simp only: map_map comp_def)
  qed
  also have "\<dots> = sum_list (map h (map snd (zip rs faces)))"
    by (simp add: comp_def)
  also have "\<dots> = sum_list (map h faces)"
    using len by simp
  finally show ?thesis .
qed

lemma rotated_faces_volume_and_com:
  assumes perm: "mset gs = mset (map (\<lambda>(r, face). rotate r face) (zip rs unit_cube_faces))"
    and len: "length rs = length unit_cube_faces"
  shows "fan_volume gs = Finite 1" and "fan_com gs = (Finite 0, Finite 0, Finite 0)"
proof -
  have six: "length unit_cube_faces = 6"
    by (simp add: unit_cube_faces_def cube_polygons_def)
  have ok: "\<exists>face \<in> set unit_cube_faces. cube_face_ok face g" if "g \<in> set gs" for g
  proof -
    from that perm have "g \<in> set (map (\<lambda>(r, face). rotate r face) (zip rs unit_cube_faces))"
      by (metis mset_eq_setD)
    then obtain r face where "(r, face) \<in> set (zip rs unit_cube_faces)" "g = rotate r face"
      by auto
    then show ?thesis using rotated_face_ok [of face r] by (auto dest: set_zip_rightD)
  qed
  have lgs: "length gs = 6"
  proof -
    have "length gs = size (mset gs)" by simp
    also have "\<dots> = length (zip rs unit_cube_faces)" unfolding perm by simp
    finally show ?thesis using len six by simp
  qed
  have vols: "\<forall>x \<in> set (concat (map six_vols gs)). x = Finite (1 / 4)"
  proof
    fix x assume "x \<in> set (concat (map six_vols gs))"
    then obtain g where g: "g \<in> set gs" and x: "x \<in> set (six_vols g)" by auto
    from ok [OF g] have "six_vols g = replicate 4 (Finite (1 / 4))"
      by (auto simp: cube_face_ok_def)
    with x show "x = Finite (1 / 4)" by simp
  qed
  have "map (\<lambda>g. length (six_vols g)) gs = map (\<lambda>g. 4) gs"
    using ok by (intro map_cong) (auto simp: cube_face_ok_def)
  then have "sum_list (map (\<lambda>g. length (six_vols g)) gs) = sum_list (map (\<lambda>g. 4) gs)"
    by (simp only:)
  also have "\<dots> = 24" using lgs by (simp add: sum_list_triv)
  finally have "length (concat (map six_vols gs)) = 24"
    by (simp add: length_concat comp_def)
  with foldl_fcl_add_const [OF vols, of 0]
  have vol: "foldl fcl_add (Finite 0) (concat (map six_vols gs)) = Finite 6" by simp
  then show "fan_volume gs = Finite 1" by (simp add: fan_volume_def)
  have fin: "list_all finite3 (concat (map com_terms gs))"
    unfolding list_all_iff
  proof
    fix t assume "t \<in> set (concat (map com_terms gs))"
    then obtain g where g: "g \<in> set gs" and t: "t \<in> set (com_terms g)" by auto
    from ok [OF g] have "list_all finite3 (com_terms g)"
      by (auto simp: cube_face_ok_def)
    with t show "finite3 t" by (simp add: list_all_iff)
  qed
  have inv: "com_sum (rotate r face) = com_sum face" if "face \<in> set unit_cube_faces" for face r
    using rotated_face_ok [OF that, of r] by (simp add: cube_face_ok_def)
  have sx: "sum_list (map (\<lambda>t. fst (real3 t)) (concat (map com_terms gs))) =
              sum_list (map (\<lambda>f. fst (com_sum f)) gs)"
    by (simp add: sum_list_map_concat com_sum_def comp_def)
  have sy: "sum_list (map (\<lambda>t. fst (snd (real3 t))) (concat (map com_terms gs))) =
              sum_list (map (\<lambda>f. fst (snd (com_sum f))) gs)"
    by (simp add: sum_list_map_concat com_sum_def comp_def)
  have sz: "sum_list (map (\<lambda>t. snd (snd (real3 t))) (concat (map com_terms gs))) =
              sum_list (map (\<lambda>f. snd (snd (com_sum f))) gs)"
    by (simp add: sum_list_map_concat com_sum_def comp_def)
  have zx: "sum_list (map (\<lambda>f. fst (com_sum f)) gs) = 0"
    using sum_list_rotated_faces [OF perm len, of "\<lambda>f. fst (com_sum f)"] inv com_sum_cube
    by simp
  have zy: "sum_list (map (\<lambda>f. fst (snd (com_sum f))) gs) = 0"
    using sum_list_rotated_faces [OF perm len, of "\<lambda>f. fst (snd (com_sum f))"] inv com_sum_cube
    by simp
  have zz: "sum_list (map (\<lambda>f. snd (snd (com_sum f))) gs) = 0"
    using sum_list_rotated_faces [OF perm len, of "\<lambda>f. snd (snd (com_sum f))"] inv com_sum_cube
    by simp
  have "foldl vadd (Finite 0, Finite 0, Finite 0) (concat (map com_terms gs)) =
          (Finite 0, Finite 0, Finite 0)"
    using foldl_vadd_finite [OF fin, of 0 0 0] by (simp add: sx sy sz zx zy zz)
  then show "fan_com gs = (Finite 0, Finite 0, Finite 0)"
    by (simp add: fan_com_def vol)
qed

text \<open>
  C8. \<^verbatim>\<open>computeVolume\<close> and \<^verbatim>\<open>computeCOM\<close> are the centroid-fan sums: the volume is the sum of
  the six-times-signed volumes divided by 6, the centre of mass the weighted sum divided
  by four times that sum. For the cube with the 8 vertices \<open>(\<plusminus>1/2, \<plusminus>1/2, \<plusminus>1/2)\<close> and its
  6 quadrilateral faces wound outward, however the vertices are numbered, the faces
  ordered and each face started, the volume is 1 and the centre of mass is the origin.
\<close>

theorem cube_volume_and_com:
  "(valid_polygons c \<longrightarrow>
      computeVolume c = Inr (fan_volume (map (face_points (points c)) (polygons c))) \<and>
      computeCOM c = Inr (fan_com (map (face_points (points c)) (polygons c)))) \<and>
   (is_unit_cube c \<longrightarrow>
      computeVolume c = Inr (Finite 1) \<and>
      computeCOM c = Inr (Finite 0, Finite 0, Finite 0))"
proof (intro conjI impI)
  assume "valid_polygons c"
  then show "computeVolume c = Inr (fan_volume (map (face_points (points c)) (polygons c)))"
    "computeCOM c = Inr (fan_com (map (face_points (points c)) (polygons c)))"
    by (rule computeVolume_fan computeCOM_fan)+
next
  assume "is_unit_cube c"
  then obtain rs where v: "valid_polygons c" and "length rs = length unit_cube_faces"
    and "mset (map (face_points (points c)) (polygons c)) =
          mset (map (\<lambda>(r, face). rotate r face) (zip rs unit_cube_faces))"
    by (auto simp: is_unit_cube_def)
  from rotated_faces_volume_and_com [OF this(3,2)] computeVolume_fan [OF v] computeCOM_fan [OF v]
  show "computeVolume c = Inr (Finite 1)" "computeCOM c = Inr (Finite 0, Finite 0, Finite 0)"
    by simp_all
qed

lemma cube_is_unit_cube: "is_unit_cube cube"
proof -
  have "valid_polygons cube" by code_simp
  moreover have "mset (points cube) = mset cube_points" by (simp add: cube_def)
  moreover have "length [0, 0, 0, 0, 0, 0 :: nat] = length unit_cube_faces"
    by (simp add: unit_cube_faces_def cube_polygons_def)
  moreover have "mset (map (face_points (points cube)) (polygons cube)) =
          mset (map (\<lambda>(r, face). rotate r face) (zip [0, 0, 0, 0, 0, 0] unit_cube_faces))"
    by (simp add: cube_def unit_cube_faces_def cube_polygons_def)
  ultimately show ?thesis unfolding is_unit_cube_def by blast
qed

lemma cube_relabelled_is_unit_cube: "is_unit_cube cube_relabelled"
proof -
  have "valid_polygons cube_relabelled" by code_simp
  moreover have "mset (points cube_relabelled) = mset cube_points"
    by (simp add: cube_relabelled_def)
  moreover have "length [3, 1, 0, 2, 1, 3 :: nat] = length unit_cube_faces"
    by (simp add: unit_cube_faces_def cube_polygons_def)
  moreover have "mset (map (face_points (points cube_relabelled)) (polygons cube_relabelled)) =
          mset (map (\<lambda>(r, face). rotate r face) (zip [3, 1, 0, 2, 1, 3] unit_cube_faces))"
    by code_simp
  ultimately show ?thesis unfolding is_unit_cube_def by blast
qed

theorem cube_volume_and_com_witness:
  "is_unit_cube cube \<and> valid_polygons cube \<and>
   computeVolume cube = Inr (Finite 1) \<and> computeCOM cube = Inr (Finite 0, Finite 0, Finite 0) \<and>
   is_unit_cube cube_relabelled \<and>
   computeVolume cube_relabelled = Inr (Finite 1) \<and>
   computeCOM cube_relabelled = Inr (Finite 0, Finite 0, Finite 0)"
proof -
  from cube_volume_and_com [of cube] cube_is_unit_cube
  have a: "computeVolume cube = Inr (Finite 1) \<and>
           computeCOM cube = Inr (Finite 0, Finite 0, Finite 0)"
    by blast
  from cube_volume_and_com [of cube_relabelled] cube_relabelled_is_unit_cube
  have b: "computeVolume cube_relabelled = Inr (Finite 1) \<and>
           computeCOM cube_relabelled = Inr (Finite 0, Finite 0, Finite 0)"
    by blast
  have "valid_polygons cube" using cube_is_unit_cube by (simp add: is_unit_cube_def)
  with a b cube_is_unit_cube cube_relabelled_is_unit_cube show ?thesis by simp
qed

end
